theory Spec2Isabelle
  imports Main "HOL-Library.Word"
begin

section \<open>Python values: strings, bytes, exceptions\<close>

text \<open>
  A Python \<^verbatim>\<open>str\<close> is a sequence of Unicode code points (0 .. 0x10FFFF, lone
  surrogates included); \<^verbatim>\<open>len\<close> counts code points. A \<^verbatim>\<open>bytes\<close> object is a
  sequence of 8-bit values. ASCII literals of the source are written with \<open>lit\<close>.
\<close>

type_synonym pystr = "nat list"
type_synonym byte = "8 word"
type_synonym bytes = "byte list"

definition lit :: "string \<Rightarrow> pystr" where
  "lit s = map of_char s"

text \<open>
  The exceptions that the modelled code paths can raise. All of them are subclasses of
  Python's \<^verbatim>\<open>Exception\<close>; \<open>IntegrityError\<close>, \<open>OperationalError\<close> and
  \<open>ProgrammingError\<close> are those of \<^verbatim>\<open>sqlite3\<close>, \<open>InvalidToken\<close> is that of
  \<^verbatim>\<open>cryptography.fernet\<close>, \<open>binascii_Error\<close> that of \<^verbatim>\<open>binascii\<close>.
\<close>

datatype exn =
    ValueError
  | UnicodeEncodeError
  | UnicodeDecodeError
  | binascii_Error
  | InvalidToken
  | IntegrityError
  | OperationalError
  | ProgrammingError
  | EOFError

subsection \<open>\<^verbatim>\<open>str.encode()\<close> and \<^verbatim>\<open>bytes.decode()\<close>: strict UTF-8\<close>

definition is_surrogate :: "nat \<Rightarrow> bool" where
  "is_surrogate c = (0xD800 \<le> c \<and> c \<le> 0xDFFF)"

text \<open>
  One code point. Python refuses a lone surrogate (\<^verbatim>\<open>surrogates not allowed\<close>); a
  value above 0x10FFFF is no code point of a \<^verbatim>\<open>str\<close> and has no encoding either.
\<close>

definition utf8_encode_char :: "nat \<Rightarrow> bytes option" where
  "utf8_encode_char c =
     (if c < 0x80 then Some [of_nat c]
      else if c < 0x800 then Some [of_nat (0xC0 + c div 64), of_nat (0x80 + c mod 64)]
      else if is_surrogate c then None
      else if c < 0x10000 then
        Some [of_nat (0xE0 + c div 4096), of_nat (0x80 + c div 64 mod 64),
              of_nat (0x80 + c mod 64)]
      else if c < 0x110000 then
        Some [of_nat (0xF0 + c div 262144), of_nat (0x80 + c div 4096 mod 64),
              of_nat (0x80 + c div 64 mod 64), of_nat (0x80 + c mod 64)]
      else None)"

fun utf8_encode :: "pystr \<Rightarrow> exn + bytes" where
  "utf8_encode [] = Inr []"
| "utf8_encode (c # cs) =
     (case utf8_encode_char c of
        None \<Rightarrow> Inl UnicodeEncodeError
      | Some bs \<Rightarrow>
          (case utf8_encode cs of
             Inl e \<Rightarrow> Inl e
           | Inr rest \<Rightarrow> Inr (bs @ rest)))"

definition is_cont :: "nat \<Rightarrow> bool" where
  "is_cont b = (0x80 \<le> b \<and> b < 0xC0)"

text \<open>
  The strict decoder: it refuses stray continuation bytes, truncated sequences, overlong
  forms (lead bytes 0xC0 and 0xC1, 0xE0 followed by less than 0xA0, 0xF0 followed by
  less than 0x90), encoded surrogates (0xED followed by 0xA0 or more) and everything
  above 0x10FFFF. The argument is the list of byte values.
\<close>

fun utf8_decode_nat :: "nat list \<Rightarrow> pystr option" where
  "utf8_decode_nat [] = Some []"
| "utf8_decode_nat (b0 # bs) =
     (if b0 < 0x80 then map_option ((#) b0) (utf8_decode_nat bs)
      else if 0xC2 \<le> b0 \<and> b0 < 0xE0 then
        (case bs of
           b1 # r \<Rightarrow>
             if is_cont b1
             then map_option ((#) ((b0 - 0xC0) * 64 + (b1 - 0x80))) (utf8_decode_nat r)
             else None
         | _ \<Rightarrow> None)
      else if 0xE0 \<le> b0 \<and> b0 < 0xF0 then
        (case bs of
           b1 # b2 # r \<Rightarrow>
             if is_cont b1 \<and> is_cont b2 \<and> (b0 \<noteq> 0xE0 \<or> 0xA0 \<le> b1)
                \<and> (b0 \<noteq> 0xED \<or> b1 < 0xA0)
             then map_option
                    ((#) ((b0 - 0xE0) * 4096 + (b1 - 0x80) * 64 + (b2 - 0x80)))
                    (utf8_decode_nat r)
             else None
         | _ \<Rightarrow> None)
      else if 0xF0 \<le> b0 \<and> b0 < 0xF5 then
        (case bs of
           b1 # b2 # b3 # r \<Rightarrow>
             if is_cont b1 \<and> is_cont b2 \<and> is_cont b3 \<and> (b0 \<noteq> 0xF0 \<or> 0x90 \<le> b1)
                \<and> (b0 \<noteq> 0xF4 \<or> b1 < 0x90)
             then map_option
                    ((#) ((b0 - 0xF0) * 262144 + (b1 - 0x80) * 4096 + (b2 - 0x80) * 64
                          + (b3 - 0x80)))
                    (utf8_decode_nat r)
             else None
         | _ \<Rightarrow> None)
      else None)"

definition utf8_decode :: "bytes \<Rightarrow> exn + pystr" where
  "utf8_decode bs =
     (case utf8_decode_nat (map unat bs) of
        None \<Rightarrow> Inl UnicodeDecodeError
      | Some s \<Rightarrow> Inr s)"

section \<open>The password policy: \<^verbatim>\<open>validate_password\<close>\<close>

text \<open>
  \<^verbatim>\<open>re.search(r'[...]', password)\<close> with a single character class succeeds exactly
  when some code point of the string is in the class.
\<close>

definition re_search :: "(nat \<Rightarrow> bool) \<Rightarrow> pystr \<Rightarrow> bool" where
  "re_search cls s = list_ex cls s"

definition class_upper :: "nat \<Rightarrow> bool" where
  "class_upper c = (0x41 \<le> c \<and> c \<le> 0x5A)"

definition class_lower :: "nat \<Rightarrow> bool" where
  "class_lower c = (0x61 \<le> c \<and> c \<le> 0x7A)"

text \<open>
  On a \<^verbatim>\<open>str\<close> pattern, \<^verbatim>\<open>\d\<close> matches every Unicode decimal digit (category Nd).
  Within ASCII these are 0-9; which code points above ASCII are decimal digits depends on
  the Unicode database of the interpreter, the parameter \<open>nd\<close>.
\<close>

definition class_digit :: "(nat \<Rightarrow> bool) \<Rightarrow> nat \<Rightarrow> bool" where
  "class_digit nd c = (if c < 0x80 then 0x30 \<le> c \<and> c \<le> 0x39 else nd c)"

text \<open>The class \<^verbatim>\<open>[!@#$%^&*(),.?":{}|<>]\<close>; 0x22 is the double quote.\<close>

definition class_special :: "nat \<Rightarrow> bool" where
  "class_special c = (c \<in> set (lit ''!@#$%^&*(),.?'' @ [0x22] @ lit '':{}|<>''))"

definition validate_password :: "(nat \<Rightarrow> bool) \<Rightarrow> pystr \<Rightarrow> bool \<times> pystr list" where
  "validate_password nd password =
     (let errors = [];
          errors = (if length password < 8
                    then errors @ [lit ''- At least 8 characters long''] else errors);
          errors = (if \<not> re_search class_upper password
                    then errors @ [lit ''- At least one uppercase letter''] else errors);
          errors = (if \<not> re_search class_lower password
                    then errors @ [lit ''- At least one lowercase letter''] else errors);
          errors = (if \<not> re_search (class_digit nd) password
                    then errors @ [lit ''- At least one number''] else errors);
          errors = (if \<not> re_search class_special password
                    then errors @ [lit ''- At least one special character ''] else errors)
      in (length errors = 0, errors))"

section \<open>The \<^verbatim>\<open>cryptography.fernet\<close> library\<close>

text \<open>
  \<^verbatim>\<open>Fernet\<close> is not code of the repository. It is modelled after the library: a key is
  the url-safe base64 text of 32 bytes (16 bytes signing key, 16 bytes encryption key); a
  token is the url-safe base64 text of
  \<^verbatim>\<open>0x80 || timestamp (8 bytes, big endian) || IV (16 bytes) || AES-128-CBC(PKCS7(data)) || HMAC-SHA256\<close>.
  The block cipher AES-128 and HMAC-SHA256 are parameters (\<open>prims\<close>); the token layout,
  the padding, the chaining mode and the base64 codec are written out.
\<close>

subsection \<open>\<^verbatim>\<open>base64.urlsafe_b64encode\<close> and \<^verbatim>\<open>base64.urlsafe_b64decode\<close>\<close>

definition table_b2a :: "nat \<Rightarrow> byte" where
  "table_b2a i =
     (if i < 26 then of_nat (0x41 + i)
      else if i < 52 then of_nat (0x61 + (i - 26))
      else if i < 62 then of_nat (0x30 + (i - 52))
      else if i = 62 then 0x2D
      else 0x5F)"

fun urlsafe_b64encode :: "bytes \<Rightarrow> bytes" where
  "urlsafe_b64encode [] = []"
| "urlsafe_b64encode [a] =
     [table_b2a (unat a div 4), table_b2a (unat a mod 4 * 16), 0x3D, 0x3D]"
| "urlsafe_b64encode [a, b] =
     [table_b2a (unat a div 4), table_b2a (unat a mod 4 * 16 + unat b div 16),
      table_b2a (unat b mod 16 * 4), 0x3D]"
| "urlsafe_b64encode (a # b # c # rest) =
     [table_b2a (unat a div 4), table_b2a (unat a mod 4 * 16 + unat b div 16),
      table_b2a (unat b mod 16 * 4 + unat c div 64), table_b2a (unat c mod 64)]
     @ urlsafe_b64encode rest"

text \<open>
  The decoder takes both alphabets: \<^verbatim>\<open>urlsafe_b64decode\<close> translates \<^verbatim>\<open>-\<close> and \<^verbatim>\<open>_\<close> to
  \<^verbatim>\<open>+\<close> and \<^verbatim>\<open>/\<close> and leaves the latter in place.
\<close>

definition table_a2b :: "byte \<Rightarrow> nat option" where
  "table_a2b c =
     (let n = unat c in
      if 0x41 \<le> n \<and> n \<le> 0x5A then Some (n - 0x41)
      else if 0x61 \<le> n \<and> n \<le> 0x7A then Some (n - 0x61 + 26)
      else if 0x30 \<le> n \<and> n \<le> 0x39 then Some (n - 0x30 + 52)
      else if n = 0x2B \<or> n = 0x2D then Some 62
      else if n = 0x2F \<or> n = 0x5F then Some 63
      else None)"

text \<open>
  The loop of \<^verbatim>\<open>binascii.a2b_base64\<close> in its default (non-strict) mode, as
  \<^verbatim>\<open>base64.b64decode\<close> calls it: bytes outside the alphabet are skipped; a pad
  character \<^verbatim>\<open>=\<close> ends the input once it completes a quad that holds at least two
  characters; input that ends inside a quad is an error. \<open>quad_pos\<close>, \<open>leftchar\<close> and
  \<open>pads\<close> are the variables of the C function, \<open>out\<close> the bytes written so far.
\<close>

fun a2b_base64 :: "nat \<Rightarrow> nat \<Rightarrow> nat \<Rightarrow> bytes \<Rightarrow> bytes \<Rightarrow> exn + bytes" where
  "a2b_base64 quad_pos leftchar pads out [] =
     (if quad_pos \<noteq> 0 then Inl binascii_Error else Inr out)"
| "a2b_base64 quad_pos leftchar pads out (c # cs) =
     (if c = 0x3D then
        (if 2 \<le> quad_pos \<and> 4 \<le> quad_pos + (pads + 1) then Inr out
         else a2b_base64 quad_pos leftchar (if 2 \<le> quad_pos then pads + 1 else pads) out cs)
      else
        (case table_a2b c of
           None \<Rightarrow> a2b_base64 quad_pos leftchar pads out cs
         | Some this_ch \<Rightarrow>
             if quad_pos = 0 then a2b_base64 1 this_ch 0 out cs
             else if quad_pos = 1 then
               a2b_base64 2 (this_ch mod 16) 0
                 (out @ [of_nat (leftchar * 4 + this_ch div 16)]) cs
             else if quad_pos = 2 then
               a2b_base64 3 (this_ch mod 4) 0
                 (out @ [of_nat (leftchar * 16 + this_ch div 4)]) cs
             else a2b_base64 0 0 0 (out @ [of_nat (leftchar * 64 + this_ch)]) cs))"

definition urlsafe_b64decode :: "bytes \<Rightarrow> exn + bytes" where
  "urlsafe_b64decode s = a2b_base64 0 0 0 [] s"

subsection \<open>Padding and chaining\<close>

record prims =
  aes_encrypt :: "bytes \<Rightarrow> bytes \<Rightarrow> bytes"
  aes_decrypt :: "bytes \<Rightarrow> bytes \<Rightarrow> bytes"
  hmac_sha256 :: "bytes \<Rightarrow> bytes \<Rightarrow> bytes"

text \<open>
  What the library guarantees of its primitives: AES maps a 16-byte block to a 16-byte
  block and decryption inverts encryption under the same key; an HMAC-SHA256 tag has 32
  bytes.
\<close>

definition prims_ok :: "prims \<Rightarrow> bool" where
  "prims_ok P \<longleftrightarrow>
     (\<forall>k b. length b = 16 \<longrightarrow>
         length (aes_encrypt P k b) = 16 \<and> aes_decrypt P k (aes_encrypt P k b) = b)
      \<and> (\<forall>k m. length (hmac_sha256 P k m) = 32)"

definition pkcs7_pad :: "bytes \<Rightarrow> bytes" where
  "pkcs7_pad data = (let n = 16 - length data mod 16 in data @ replicate n (of_nat n))"

text \<open>
  The unpadder refuses data that is empty or not a whole number of blocks, a pad length
  of 0 or above 16, and pad bytes that differ from the pad length.
\<close>

definition pkcs7_unpad :: "bytes \<Rightarrow> exn + bytes" where
  "pkcs7_unpad data =
     (if data = [] \<or> length data mod 16 \<noteq> 0 then Inl ValueError
      else
        let pad_size = unat (last data) in
        if pad_size = 0 \<or> 16 < pad_size
           \<or> drop (length data - pad_size) data \<noteq> replicate pad_size (last data)
        then Inl ValueError
        else Inr (take (length data - pad_size) data))"

definition xor_bytes :: "bytes \<Rightarrow> bytes \<Rightarrow> bytes" where
  "xor_bytes xs ys = map (\<lambda>(x, y). xor x y) (zip xs ys)"

fun chunks :: "nat \<Rightarrow> 'a list \<Rightarrow> 'a list list" where
  "chunks n xs = (if n = 0 \<or> xs = [] then [] else take n xs # chunks n (drop n xs))"

declare chunks.simps [simp del]

fun cbc_encrypt_blocks :: "(bytes \<Rightarrow> bytes) \<Rightarrow> bytes \<Rightarrow> bytes list \<Rightarrow> bytes list" where
  "cbc_encrypt_blocks E prev [] = []"
| "cbc_encrypt_blocks E prev (b # bs) =
     (let c = E (xor_bytes prev b) in c # cbc_encrypt_blocks E c bs)"

fun cbc_decrypt_blocks :: "(bytes \<Rightarrow> bytes) \<Rightarrow> bytes \<Rightarrow> bytes list \<Rightarrow> bytes list" where
  "cbc_decrypt_blocks D prev [] = []"
| "cbc_decrypt_blocks D prev (c # cs) = xor_bytes prev (D c) # cbc_decrypt_blocks D c cs"

definition cbc_encrypt :: "prims \<Rightarrow> bytes \<Rightarrow> bytes \<Rightarrow> bytes \<Rightarrow> bytes" where
  "cbc_encrypt P key iv data = concat (cbc_encrypt_blocks (aes_encrypt P key) iv (chunks 16 data))"

text \<open>
  The decryptor's \<^verbatim>\<open>finalize\<close> raises \<open>ValueError\<close> when the data is not a whole
  number of blocks; the cipher refuses an IV that is not 16 bytes long.
\<close>

definition cbc_decrypt :: "prims \<Rightarrow> bytes \<Rightarrow> bytes \<Rightarrow> bytes \<Rightarrow> exn + bytes" where
  "cbc_decrypt P key iv data =
     (if length iv \<noteq> 16 then Inl ValueError
      else if length data mod 16 \<noteq> 0 then Inl ValueError
      else Inr (concat (cbc_decrypt_blocks (aes_decrypt P key) iv (chunks 16 data))))"

subsection \<open>The class \<^verbatim>\<open>Fernet\<close>\<close>

record fernet =
  signing_key :: bytes
  encryption_key :: bytes

text \<open>\<^verbatim>\<open>Fernet.generate_key()\<close>; \<open>rnd\<close> is the result of \<^verbatim>\<open>os.urandom(32)\<close>.\<close>

definition generate_key :: "bytes \<Rightarrow> bytes" where
  "generate_key rnd = urlsafe_b64encode rnd"

text \<open>
  The constructor \<^verbatim>\<open>Fernet(key)\<close>: a key that does not decode, or does not decode to
  32 bytes, is a \<open>ValueError\<close>.
\<close>

definition Fernet :: "bytes \<Rightarrow> exn + fernet" where
  "Fernet key =
     (case urlsafe_b64decode key of
        Inl e \<Rightarrow> Inl ValueError
      | Inr k \<Rightarrow>
          if length k \<noteq> 32 then Inl ValueError
          else Inr \<lparr>signing_key = take 16 k, encryption_key = drop 16 k\<rparr>)"

text \<open>\<^verbatim>\<open>current_time.to_bytes(length=8, byteorder="big")\<close>.\<close>

definition to_bytes8 :: "64 word \<Rightarrow> bytes" where
  "to_bytes8 t = map (\<lambda>i. ucast (drop_bit (8 * i) t)) [7, 6, 5, 4, 3, 2, 1, 0]"

text \<open>
  \<^verbatim>\<open>Fernet.encrypt(data)\<close>; \<open>iv\<close> is the result of \<^verbatim>\<open>os.urandom(16)\<close> and
  \<open>current_time\<close> that of \<^verbatim>\<open>int(time.time())\<close>, the two values the call draws from
  its environment.
\<close>

definition fernet_encrypt :: "prims \<Rightarrow> fernet \<Rightarrow> bytes \<Rightarrow> 64 word \<Rightarrow> bytes \<Rightarrow> bytes" where
  "fernet_encrypt P f iv current_time data =
     (let padded_data = pkcs7_pad data;
          ciphertext = cbc_encrypt P (encryption_key f) iv padded_data;
          basic_parts = [0x80] @ to_bytes8 current_time @ iv @ ciphertext;
          hmac = hmac_sha256 P (signing_key f) basic_parts
      in urlsafe_b64encode (basic_parts @ hmac))"

text \<open>
  \<^verbatim>\<open>Fernet.decrypt(token)\<close> with no \<^verbatim>\<open>ttl\<close>: the timestamp is not checked. Every
  failure is an \<open>InvalidToken\<close>, but for the IV check of the cipher, which comes after the
  signature has verified. The slices \<^verbatim>\<open>data[:-32]\<close>, \<^verbatim>\<open>data[-32:]\<close>, \<^verbatim>\<open>data[9:25]\<close>
  and \<^verbatim>\<open>data[25:-32]\<close> are Python's: they are short or empty on short data.
\<close>

definition fernet_decrypt :: "prims \<Rightarrow> fernet \<Rightarrow> bytes \<Rightarrow> exn + bytes" where
  "fernet_decrypt P f token =
     (case urlsafe_b64decode token of
        Inl e \<Rightarrow> Inl InvalidToken
      | Inr data \<Rightarrow>
          if data = [] \<or> hd data \<noteq> 0x80 then Inl InvalidToken
          else if length data < 9 then Inl InvalidToken
          else if hmac_sha256 P (signing_key f) (take (length data - 32) data)
                  \<noteq> drop (length data - 32) data
          then Inl InvalidToken
          else
            let iv = take 16 (drop 9 data);
                ciphertext = take (length data - 32 - 25) (drop 25 data)
            in if length iv \<noteq> 16 then Inl ValueError
               else
                 (case cbc_decrypt P (encryption_key f) iv ciphertext of
                    Inl e \<Rightarrow> Inl InvalidToken
                  | Inr plaintext_padded \<Rightarrow>
                      (case pkcs7_unpad plaintext_padded of
                         Inl e \<Rightarrow> Inl InvalidToken
                       | Inr unpadded \<Rightarrow> Inr unpadded)))"

section \<open>The class \<^verbatim>\<open>PasswordManager\<close>\<close>

subsection \<open>Key file\<close>

text \<open>
  The file system maps a path to the content of the regular file there. \<open>rnd\<close> is the
  result of the \<^verbatim>\<open>os.urandom(32)\<close> that \<^verbatim>\<open>Fernet.generate_key()\<close> would draw. The
  result is the \<^verbatim>\<open>Fernet\<close> object, or the exception of its constructor, and the file
  system after the call.
\<close>

definition initialize_encryption ::
  "(pystr \<rightharpoonup> bytes) \<Rightarrow> pystr \<Rightarrow> bytes \<Rightarrow> (exn + fernet) \<times> (pystr \<rightharpoonup> bytes)" where
  "initialize_encryption fs key_file rnd =
     (case fs key_file of
        Some content \<Rightarrow> (let key = content in (Fernet key, fs))
      | None \<Rightarrow> (let key = generate_key rnd in (Fernet key, fs(key_file \<mapsto> key))))"

subsection \<open>Encryption of a password\<close>

definition encrypt_password ::
  "prims \<Rightarrow> fernet \<Rightarrow> bytes \<Rightarrow> 64 word \<Rightarrow> pystr \<Rightarrow> exn + pystr" where
  "encrypt_password P f iv current_time password =
     (case utf8_encode password of
        Inl e \<Rightarrow> Inl e
      | Inr data \<Rightarrow> utf8_decode (fernet_encrypt P f iv current_time data))"

definition decrypt_password :: "prims \<Rightarrow> fernet \<Rightarrow> pystr \<Rightarrow> exn + pystr" where
  "decrypt_password P f encrypted_password =
     (case utf8_encode encrypted_password of
        Inl e \<Rightarrow> Inl e
      | Inr token \<Rightarrow>
          (case fernet_decrypt P f token of
             Inl e \<Rightarrow> Inl e
           | Inr data \<Rightarrow> utf8_decode data))"

subsection \<open>The table \<^verbatim>\<open>passwords\<close>\<close>

text \<open>
  A row of the table
  \<^verbatim>\<open>passwords (id INTEGER PRIMARY KEY AUTOINCREMENT, service TEXT NOT NULL UNIQUE, password TEXT NOT NULL)\<close>.
  The object holds the connection (open or closed), the \<^verbatim>\<open>Fernet\<close> object and, standing
  for the database behind the connection, the rows of the table in insertion order
  (\<open>None\<close> while the table does not exist).
\<close>

record row =
  row_id :: nat
  row_service :: pystr
  row_password :: pystr

record manager =
  self_db_name :: pystr
  self_key_file :: pystr
  self_fernet :: fernet
  self_closed :: bool
  self_passwords :: "row list option"

definition create_table :: "manager \<Rightarrow> manager" where
  "create_table m =
     m\<lparr>self_passwords := (case self_passwords m of None \<Rightarrow> Some [] | Some rows \<Rightarrow> Some rows)\<rparr>"

text \<open>
  The constructor: \<open>db\<close> is the table as the database file \<open>db_name\<close> holds it before
  the call (\<open>None\<close> for a new file). An exception of \<open>initialize_encryption\<close> leaves no
  object. Failures of the operating system (a path that cannot be opened, a full disk) are
  outside the model.
\<close>

definition PasswordManager ::
  "(pystr \<rightharpoonup> bytes) \<Rightarrow> row list option \<Rightarrow> pystr \<Rightarrow> pystr \<Rightarrow> bytes
     \<Rightarrow> (exn + manager) \<times> (pystr \<rightharpoonup> bytes)" where
  "PasswordManager fs db db_name key_file rnd =
     (case initialize_encryption fs key_file rnd of
        (Inl e, fs') \<Rightarrow> (Inl e, fs')
      | (Inr f, fs') \<Rightarrow>
          (Inr (create_table
                  \<lparr>self_db_name = db_name, self_key_file = key_file, self_fernet = f,
                   self_closed = False, self_passwords = db\<rparr>), fs'))"

definition close :: "manager \<Rightarrow> manager" where
  "close m = m\<lparr>self_closed := True\<rparr>"

text \<open>
  A \<^verbatim>\<open>str\<close> parameter is bound as UTF-8 text: a lone surrogate is a
  \<open>UnicodeEncodeError\<close>.
\<close>

definition bindable :: "pystr \<Rightarrow> bool" where
  "bindable s = (case utf8_encode s of Inl e \<Rightarrow> False | Inr bs \<Rightarrow> True)"

definition next_id :: "row list \<Rightarrow> nat" where
  "next_id rows = Suc (fold max (map row_id rows) 0)"

text \<open>
  \<^verbatim>\<open>cursor.execute("INSERT INTO passwords (service, password) VALUES (?, ?)", ...)\<close>:
  a closed connection is a \<open>ProgrammingError\<close>, a missing table an \<open>OperationalError\<close>,
  and a service that the table holds already violates \<^verbatim>\<open>UNIQUE\<close> (binary collation:
  exact, case-sensitive equality), an \<open>IntegrityError\<close> that leaves the table as it was.
\<close>

definition execute_insert :: "manager \<Rightarrow> pystr \<Rightarrow> pystr \<Rightarrow> exn + manager" where
  "execute_insert m service password =
     (if self_closed m then Inl ProgrammingError
      else
        (case self_passwords m of
           None \<Rightarrow> Inl OperationalError
         | Some rows \<Rightarrow>
             if \<not> (bindable service \<and> bindable password) then Inl UnicodeEncodeError
             else if service \<in> set (map row_service rows) then Inl IntegrityError
             else Inr (m\<lparr>self_passwords :=
                          Some (rows @ [\<lparr>row_id = next_id rows, row_service = service,
                                         row_password = password\<rparr>])\<rparr>)))"

definition commit :: "manager \<Rightarrow> exn + manager" where
  "commit m = (if self_closed m then Inl ProgrammingError else Inr m)"

text \<open>
  \<^verbatim>\<open>cursor.execute("SELECT service, password FROM passwords WHERE service = ?", ...)\<close>
  followed by \<^verbatim>\<open>cursor.fetchone()\<close>: the first matching row, or \<open>None\<close>.
\<close>

definition execute_select :: "manager \<Rightarrow> pystr \<Rightarrow> exn + (pystr \<times> pystr) option" where
  "execute_select m service_name =
     (if self_closed m then Inl ProgrammingError
      else
        (case self_passwords m of
           None \<Rightarrow> Inl OperationalError
         | Some rows \<Rightarrow>
             if \<not> bindable service_name then Inl UnicodeEncodeError
             else Inr (map_option (\<lambda>r. (row_service r, row_password r))
                         (find (\<lambda>r. row_service r = service_name) rows))))"

subsection \<open>Terminal\<close>

text \<open>
  One constructor for each \<^verbatim>\<open>print\<close> statement of the class, with the values it
  interpolates. The state of a call is the object, the lines the user will type at the
  \<^verbatim>\<open>getpass\<close> prompts, what has been printed, and the code points above ASCII that
  \<^verbatim>\<open>sys.stdout\<close> can write with its encoding and error handler. \<^verbatim>\<open>getpass\<close> raises
  \<open>EOFError\<close> when the input has ended.
\<close>

datatype printed =
    Does_not_meet_requirements  \<comment> \<open>Password does not meet requirements:\<close>
  | Violation pystr  \<comment> \<open>one message of \<open>validate_password\<close>\<close>
  | Attempt_try_again nat nat  \<comment> \<open>Attempt 1/3. Please try again.\<close>
  | Failed_after_attempts nat  \<comment> \<open>Failed after 3 attempts. Password not saved.\<close>
  | Passwords_dont_match  \<comment> \<open>Passwords don't match. Please try again.\<close>
  | Saved_successfully pystr  \<comment> \<open>Password for S saved successfully\<close>
  | Already_exists pystr  \<comment> \<open>Password for S already exists. Use update instead.\<close>
  | Error_saving exn  \<comment> \<open>Error saving password: e\<close>
  | Service_line pystr  \<comment> \<open>Service: S\<close>
  | Password_line pystr  \<comment> \<open>Password: P\<close>
  | No_password_found pystr  \<comment> \<open>No password found for S\<close>
  | Error_retrieving exn  \<comment> \<open>Error retrieving password: e\<close>

record world =
  self :: manager
  tty :: "pystr list"
  stdout :: "printed list"
  stdout_encodes :: "nat \<Rightarrow> bool"

text \<open>
  \<^verbatim>\<open>print\<close> raises \<open>UnicodeEncodeError\<close>, and writes nothing, when \<^verbatim>\<open>sys.stdout\<close>
  cannot encode the text. The fixed words of each line, the attempt numbers and the
  messages of the exceptions are ASCII, and \<^verbatim>\<open>sys.stdout\<close> is taken to encode ASCII;
  so whether a line can be written depends on the text of the user that it interpolates.
\<close>

fun user_text :: "printed \<Rightarrow> pystr" where
  "user_text (Violation error) = error"
| "user_text (Saved_successfully service_name) = service_name"
| "user_text (Already_exists service_name) = service_name"
| "user_text (Service_line service_name) = service_name"
| "user_text (Password_line decrypted) = decrypted"
| "user_text (No_password_found service_name) = service_name"
| "user_text Does_not_meet_requirements = []"
| "user_text (Attempt_try_again attempt limit) = []"
| "user_text (Failed_after_attempts limit) = []"
| "user_text Passwords_dont_match = []"
| "user_text (Error_saving e) = []"
| "user_text (Error_retrieving e) = []"

definition printable :: "world \<Rightarrow> pystr \<Rightarrow> bool" where
  "printable w s = list_all (\<lambda>c. c < 0x80 \<or> stdout_encodes w c) s"

definition print :: "printed \<Rightarrow> world \<Rightarrow> (exn + unit) \<times> world" where
  "print x w =
     (if printable w (user_text x) then (Inr (), w\<lparr>stdout := stdout w @ [x]\<rparr>)
      else (Inl UnicodeEncodeError, w))"

text \<open>\<^verbatim>\<open>for error in errors: print(error)\<close>, up to the first line that fails.\<close>

fun print_each :: "printed list \<Rightarrow> world \<Rightarrow> (exn + unit) \<times> world" where
  "print_each [] w = (Inr (), w)"
| "print_each (x # xs) w =
     (case print x w of
        (Inl e, w1) \<Rightarrow> (Inl e, w1)
      | (Inr u, w1) \<Rightarrow> print_each xs w1)"

definition getpass :: "world \<Rightarrow> (exn + pystr) \<times> world" where
  "getpass w =
     (case tty w of
        [] \<Rightarrow> (Inl EOFError, w)
      | line # rest \<Rightarrow> (Inr line, w\<lparr>tty := rest\<rparr>))"

definition py_range :: "nat \<Rightarrow> nat \<Rightarrow> nat list" where
  "py_range a b = [a..<b]"

subsection \<open>\<^verbatim>\<open>add_password\<close>\<close>

definition max_attempts :: nat where
  "max_attempts = 3"

definition max_attempts_confirm :: nat where
  "max_attempts_confirm = 3"

text \<open>
  The body of the \<^verbatim>\<open>try\<close> statement: its result is the exception that leaves it, if
  any, and the state at that point. The success line is printed inside the body, after
  the commit: when that \<^verbatim>\<open>print\<close> raises, the row has been committed. \<open>iv\<close> and
  \<open>current_time\<close> are what \<^verbatim>\<open>Fernet.encrypt\<close> would draw.
\<close>

definition save_try ::
  "prims \<Rightarrow> bytes \<Rightarrow> 64 word \<Rightarrow> pystr \<Rightarrow> pystr \<Rightarrow> world \<Rightarrow> (exn + unit) \<times> world" where
  "save_try P iv current_time service_name password w =
     (case encrypt_password P (self_fernet (self w)) iv current_time password of
        Inl e \<Rightarrow> (Inl e, w)
      | Inr encrypted \<Rightarrow>
          (case execute_insert (self w) service_name encrypted of
             Inl e \<Rightarrow> (Inl e, w)
           | Inr m \<Rightarrow>
               (case commit m of
                  Inl e \<Rightarrow> (Inl e, w\<lparr>self := m\<rparr>)
                | Inr m' \<Rightarrow> print (Saved_successfully service_name) (w\<lparr>self := m'\<rparr>))))"

text \<open>
  The \<^verbatim>\<open>try\<close> statement with its two handlers. Each handler prints and returns; an
  exception of the handler's own \<^verbatim>\<open>print\<close> leaves \<open>add_password\<close>.
\<close>

definition save ::
  "prims \<Rightarrow> bytes \<Rightarrow> 64 word \<Rightarrow> pystr \<Rightarrow> pystr \<Rightarrow> world \<Rightarrow> (exn + unit) \<times> world" where
  "save P iv current_time service_name password w =
     (case save_try P iv current_time service_name password w of
        (Inr u, w') \<Rightarrow> (Inr (), w')
      | (Inl e, w') \<Rightarrow>
          if e = IntegrityError then print (Already_exists service_name) w'
          else print (Error_saving e) w')"

text \<open>
  The inner loop over \<open>attempt_confirm\<close>. The result \<open>Inr True\<close> stands for leaving the
  loop (by \<^verbatim>\<open>break\<close> or at its end), \<open>Inr False\<close> for the \<^verbatim>\<open>return\<close> after the last
  failed attempt.
\<close>

fun confirm_loop :: "pystr \<Rightarrow> nat list \<Rightarrow> world \<Rightarrow> (exn + bool) \<times> world" where
  "confirm_loop password [] w = (Inr True, w)"
| "confirm_loop password (attempt_confirm # rest) w =
     (case getpass w of
        (Inl e, w1) \<Rightarrow> (Inl e, w1)
      | (Inr confirm, w1) \<Rightarrow>
          if password = confirm then (Inr True, w1)
          else
            (case print Passwords_dont_match w1 of
               (Inl e, w2) \<Rightarrow> (Inl e, w2)
             | (Inr u, w2) \<Rightarrow>
                 if attempt_confirm < max_attempts_confirm then
                   (case print (Attempt_try_again attempt_confirm max_attempts_confirm) w2 of
                      (Inl e, w3) \<Rightarrow> (Inl e, w3)
                    | (Inr u', w3) \<Rightarrow> confirm_loop password rest w3)
                 else
                   (case print (Failed_after_attempts max_attempts_confirm) w2 of
                      (Inl e, w3) \<Rightarrow> (Inl e, w3)
                    | (Inr u', w3) \<Rightarrow> (Inr False, w3))))"

text \<open>The outer loop over \<open>attempt\<close>; at its end the function returns.\<close>

fun password_loop ::
  "(nat \<Rightarrow> bool) \<Rightarrow> prims \<Rightarrow> bytes \<Rightarrow> 64 word \<Rightarrow> pystr \<Rightarrow> nat list \<Rightarrow> world
     \<Rightarrow> (exn + unit) \<times> world" where
  "password_loop nd P iv current_time service_name [] w = (Inr (), w)"
| "password_loop nd P iv current_time service_name (attempt # rest) w =
     (case getpass w of
        (Inl e, w1) \<Rightarrow> (Inl e, w1)
      | (Inr password, w1) \<Rightarrow>
          (case validate_password nd password of
             (is_valid, errors) \<Rightarrow>
               if \<not> is_valid then
                 (case print_each (Does_not_meet_requirements # map Violation errors) w1 of
                    (Inl e, w2) \<Rightarrow> (Inl e, w2)
                  | (Inr u, w2) \<Rightarrow>
                      if attempt < max_attempts then
                        (case print (Attempt_try_again attempt max_attempts) w2 of
                           (Inl e, w3) \<Rightarrow> (Inl e, w3)
                         | (Inr u', w3) \<Rightarrow>
                             password_loop nd P iv current_time service_name rest w3)
                      else print (Failed_after_attempts max_attempts) w2)
               else
                 (case confirm_loop password (py_range 1 (max_attempts_confirm + 1)) w1 of
                    (Inl e, w2) \<Rightarrow> (Inl e, w2)
                  | (Inr False, w2) \<Rightarrow> (Inr (), w2)
                  | (Inr True, w2) \<Rightarrow> save P iv current_time service_name password w2)))"

definition add_password ::
  "(nat \<Rightarrow> bool) \<Rightarrow> prims \<Rightarrow> bytes \<Rightarrow> 64 word \<Rightarrow> pystr \<Rightarrow> world \<Rightarrow> (exn + unit) \<times> world" where
  "add_password nd P iv current_time service_name w =
     password_loop nd P iv current_time service_name (py_range 1 (max_attempts + 1)) w"

subsection \<open>\<^verbatim>\<open>get_password\<close>\<close>

text \<open>
  The body of the \<^verbatim>\<open>try\<close> statement, with its three \<^verbatim>\<open>print\<close> statements, then the
  statement with its handler, which prints the exception and returns \<open>None\<close>.
\<close>

definition get_password_try ::
  "prims \<Rightarrow> pystr \<Rightarrow> world \<Rightarrow> (exn + pystr option) \<times> world" where
  "get_password_try P service_name w =
     (case execute_select (self w) service_name of
        Inl e \<Rightarrow> (Inl e, w)
      | Inr result \<Rightarrow>
          (case result of
             Some (svc, encrypted_password) \<Rightarrow>
               (case decrypt_password P (self_fernet (self w)) encrypted_password of
                  Inl e \<Rightarrow> (Inl e, w)
                | Inr decrypted \<Rightarrow>
                    (case print (Service_line service_name) w of
                       (Inl e, w1) \<Rightarrow> (Inl e, w1)
                     | (Inr u, w1) \<Rightarrow>
                         (case print (Password_line decrypted) w1 of
                            (Inl e, w2) \<Rightarrow> (Inl e, w2)
                          | (Inr u', w2) \<Rightarrow> (Inr (Some decrypted), w2))))
           | None \<Rightarrow>
               (case print (No_password_found service_name) w of
                  (Inl e, w1) \<Rightarrow> (Inl e, w1)
                | (Inr u, w1) \<Rightarrow> (Inr None, w1))))"

definition get_password :: "prims \<Rightarrow> pystr \<Rightarrow> world \<Rightarrow> (exn + pystr option) \<times> world" where
  "get_password P service_name w =
     (case get_password_try P service_name w of
        (Inr r, w') \<Rightarrow> (Inr r, w')
      | (Inl e, w') \<Rightarrow>
          (case print (Error_retrieving e) w' of
             (Inl e', w'') \<Rightarrow> (Inl e', w'')
           | (Inr u, w'') \<Rightarrow> (Inr None, w'')))"

section \<open>Well-formed text and example values\<close>

text \<open>
  A plaintext is valid when each of its code points is a Unicode scalar value: below
  0x110000 and no surrogate. These are the strings that \<^verbatim>\<open>str.encode()\<close> accepts.
\<close>

definition valid_plaintext :: "pystr \<Rightarrow> bool" where
  "valid_plaintext s = list_all (\<lambda>c. c < 0x110000 \<and> \<not> is_surrogate c) s"

text \<open>
  A stand-in for the two primitives that satisfies \<open>prims_ok\<close>. It is no cipher; it
  instantiates the theorems below at concrete inputs.
\<close>

definition toy_prims :: prims where
  "toy_prims =
     \<lparr>aes_encrypt = (\<lambda>k b. map (\<lambda>x. x + sum_list k) b),
      aes_decrypt = (\<lambda>k b. map (\<lambda>x. x - sum_list k) b),
      hmac_sha256 = (\<lambda>k m. replicate 32 (sum_list k + sum_list m))\<rparr>"

definition example_fernet :: fernet where
  "example_fernet = \<lparr>signing_key = replicate 16 1, encryption_key = replicate 16 2\<rparr>"

definition example_iv :: bytes where
  "example_iv = replicate 16 7"

section \<open>Store states\<close>

text \<open>
  The uniqueness invariant of the table: no two rows with the same service name, under
  exact (case-sensitive) equality of the names.
\<close>

definition services :: "manager \<Rightarrow> pystr list" where
  "services m = (case self_passwords m of None \<Rightarrow> [] | Some rows \<Rightarrow> map row_service rows)"

definition unique_services :: "manager \<Rightarrow> bool" where
  "unique_services m = distinct (services m)"

text \<open>
  The states of the object that the class can reach: constructed on a new database file,
  or on the database that a reachable state left behind, and then changed by
  \<open>add_password\<close>, \<open>get_password\<close> and \<open>close\<close>, with any typed input, any random
  bytes and any clock value.
\<close>

inductive reachable :: "(nat \<Rightarrow> bool) \<Rightarrow> prims \<Rightarrow> manager \<Rightarrow> bool" for nd :: "nat \<Rightarrow> bool" and P :: prims where
  new: "PasswordManager fs None db_name key_file rnd = (Inr m, fs') \<Longrightarrow> reachable nd P m"
| reopen: "reachable nd P m0 \<Longrightarrow>
     PasswordManager fs (self_passwords m0) db_name key_file rnd = (Inr m, fs') \<Longrightarrow>
     reachable nd P m"
| add: "reachable nd P (self w) \<Longrightarrow>
     add_password nd P iv current_time service_name w = (r, w') \<Longrightarrow>
     reachable nd P (self w')"
| get: "reachable nd P (self w) \<Longrightarrow>
     get_password P service_name w = (r', w') \<Longrightarrow>
     reachable nd P (self w')"
| close: "reachable nd P m \<Longrightarrow> reachable nd P (close m)"

text \<open>
  Example values: a Unicode table with no decimal digit above ASCII (the example
  passwords are ASCII), a terminal that writes every well-formed text (a UTF-8 terminal)
  and one that writes ASCII only, the object that the constructor returns on a new
  database, a world in which the user types a password and its confirmation, and a world
  whose table holds a truncated token.
\<close>

definition ascii_digits_only :: "nat \<Rightarrow> bool" where
  "ascii_digits_only c = False"

definition utf8_terminal :: "nat \<Rightarrow> bool" where
  "utf8_terminal c = (c < 0x110000 \<and> \<not> is_surrogate c)"

definition ascii_terminal :: "nat \<Rightarrow> bool" where
  "ascii_terminal c = False"

definition new_manager :: manager where
  "new_manager =
     \<lparr>self_db_name = lit ''passwords.db'', self_key_file = lit ''encryption.key'',
      self_fernet = example_fernet, self_closed = False, self_passwords = Some []\<rparr>"

definition typing_world :: "pystr \<Rightarrow> world" where
  "typing_world pw =
     \<lparr>self = new_manager, tty = [pw, pw], stdout = [], stdout_encodes = utf8_terminal\<rparr>"

definition corrupted_world :: world where
  "corrupted_world =
     \<lparr>self = new_manager\<lparr>self_passwords :=
               Some [\<lparr>row_id = 1, row_service = lit ''gmail.com'',
                      row_password = lit ''gAAAAABl''\<rparr>]\<rparr>,
      tty = [], stdout = [], stdout_encodes = utf8_terminal\<rparr>"

text \<open>
  The scenario of the repository's test of duplicate services: a first password is stored
  for \<^verbatim>\<open>facebook.com\<close>, then the user types a second one for the same service.
\<close>

definition after_first_put :: world where
  "after_first_put =
     snd (add_password ascii_digits_only toy_prims example_iv 1700000000 (lit ''facebook.com'')
            (typing_world (lit ''MyPass123!'')))"

definition second_put_world :: world where
  "second_put_world =
     after_first_put\<lparr>tty := [lit ''DifferentPass456!'', lit ''DifferentPass456!'']\<rparr>"

text \<open>
  A service name with a letter above ASCII (0xE9, e with acute accent), a service name
  that is a lone surrogate, the token that the example draw makes of \<^verbatim>\<open>MyPass123!\<close>, and
  the state after that password has been stored for the first name on the ASCII terminal.
\<close>

definition cafe_service :: pystr where
  "cafe_service = lit ''caf'' @ [0xE9]"

definition surrogate_service :: pystr where
  "surrogate_service = [0xD800]"

definition example_token :: pystr where
  "example_token =
     (case encrypt_password toy_prims example_fernet example_iv 1700000000 (lit ''MyPass123!'') of
        Inl e \<Rightarrow> []
      | Inr encrypted \<Rightarrow> encrypted)"

definition ascii_typing_world :: "pystr \<Rightarrow> world" where
  "ascii_typing_world pw = (typing_world pw)\<lparr>stdout_encodes := ascii_terminal\<rparr>"

definition after_cafe_put :: world where
  "after_cafe_put =
     snd (add_password ascii_digits_only toy_prims example_iv 1700000000 cafe_service
            (ascii_typing_world (lit ''MyPass123!'')))"

text \<open>
  A key file as the code writes it: the 44 characters that \<^verbatim>\<open>Fernet.generate_key()\<close>
  returns when the 32 random bytes are all zero. And a file of 32 raw bytes.
\<close>

definition example_key_text :: bytes where
  "example_key_text = map of_char ''AAAAAAAAAAAAAAAAAAAAAAAAAAAAAAAAAAAAAAAAAAA=''"

definition raw_key_bytes :: bytes where
  "raw_key_bytes = replicate 32 0x41"

section \<open>UTF-8: decoding inverts encoding\<close>

lemma unat_byte_of_nat: "n < 256 \<Longrightarrow> unat (of_nat n :: byte) = n"
  by (simp add: unat_of_nat)

lemma utf8_decode_nat_ascii: "\<forall>b\<in>set bs. b < 0x80 \<Longrightarrow> utf8_decode_nat bs = Some bs"
  by (induction bs) simp_all

lemma utf8_encode_ascii: "\<forall>c\<in>set s. c < 0x80 \<Longrightarrow> utf8_encode s = Inr (map of_nat s)"
  by (induction s) (simp_all add: utf8_encode_char_def)

lemma utf8_decode_char:
  assumes "utf8_encode_char c = Some bs"
  shows "utf8_decode_nat (map unat bs @ rest) = map_option ((#) c) (utf8_decode_nat rest)"
proof -
  define l q m h n g where "l = c mod 64" and "q = c div 64" and "m = q mod 64"
    and "h = q div 64" and "n = h mod 64" and "g = h div 64"
  have lin: "c = q * 64 + l" "l < 64" "q = h * 64 + m" "m < 64" "h = g * 64 + n" "n < 64"
    by (simp_all add: l_def q_def m_def h_def n_def g_def)
  have dv0: "c div 4096 = h" "c div 262144 = g"
    by (simp_all add: q_def h_def g_def div_mult2_eq)
  have dv: "c div 4096 = h" "c div 262144 = g" "c div 4096 mod 64 = n"
    using dv0 by (simp_all add: n_def)
  consider "c < 0x80" | "0x80 \<le> c" "c < 0x800" | "0x800 \<le> c" "c < 0x10000" "\<not> is_surrogate c"
    | "0x10000 \<le> c" "c < 0x110000"
    using assms by (auto simp: utf8_encode_char_def split: if_splits)
  then show ?thesis
  proof cases
    case 1
    with assms show ?thesis
      by (auto simp: utf8_encode_char_def unat_byte_of_nat)
  next
    case 2
    have b: "2 \<le> q" "q < 32" using 2 lin by linarith+
    have bs: "bs = [of_nat (0xC0 + q), of_nat (0x80 + l)]"
      using assms 2 by (auto simp: utf8_encode_char_def q_def l_def)
    have u: "unat (of_nat (0xC0 + q) :: byte) = 0xC0 + q"
            "unat (of_nat (0x80 + l) :: byte) = 0x80 + l"
      using b lin(2) by (simp_all add: unat_byte_of_nat del: of_nat_add)
    show ?thesis
      using b lin(2) unfolding bs lin(1) by (simp add: u is_cont_def del: of_nat_add)
  next
    case 3
    have b: "h < 16" and s1: "h = 0 \<Longrightarrow> 32 \<le> m" and s2: "h = 13 \<Longrightarrow> m < 32"
      using 3 lin unfolding is_surrogate_def by linarith+
    have bs: "bs = [of_nat (0xE0 + h), of_nat (0x80 + m), of_nat (0x80 + l)]"
      using assms 3 by (auto simp: utf8_encode_char_def dv) (simp_all add: m_def q_def l_def)
    have u: "unat (of_nat (0xE0 + h) :: byte) = 0xE0 + h"
            "unat (of_nat (0x80 + m) :: byte) = 0x80 + m"
            "unat (of_nat (0x80 + l) :: byte) = 0x80 + l"
      using b lin by (simp_all add: unat_byte_of_nat del: of_nat_add)
    have c: "c = h * 4096 + m * 64 + l" using lin by linarith
    show ?thesis
      using b s1 s2 lin(2,4) unfolding bs c by (auto simp add: u is_cont_def simp del: of_nat_add)
  next
    case 4
    have b: "g < 5" and s1: "g = 0 \<Longrightarrow> 16 \<le> n" and s2: "g = 4 \<Longrightarrow> n < 16"
      using 4 lin by linarith+
    have bs: "bs = [of_nat (0xF0 + g), of_nat (0x80 + n), of_nat (0x80 + m), of_nat (0x80 + l)]"
      using assms 4 by (auto simp: utf8_encode_char_def is_surrogate_def dv)
        (simp_all add: m_def q_def l_def n_def)
    have u: "unat (of_nat (0xF0 + g) :: byte) = 0xF0 + g"
            "unat (of_nat (0x80 + n) :: byte) = 0x80 + n"
            "unat (of_nat (0x80 + m) :: byte) = 0x80 + m"
            "unat (of_nat (0x80 + l) :: byte) = 0x80 + l"
      using b lin by (simp_all add: unat_byte_of_nat del: of_nat_add)
    have c: "c = g * 262144 + n * 4096 + m * 64 + l" using lin by linarith
    show ?thesis
      using b s1 s2 lin(2,4,6) unfolding bs c
      by (auto simp add: u is_cont_def simp del: of_nat_add)
  qed
qed

lemma utf8_roundtrip: "utf8_encode s = Inr bs \<Longrightarrow> utf8_decode_nat (map unat bs) = Some s"
proof (induction s arbitrary: bs)
  case Nil
  then show ?case by simp
next
  case (Cons c s)
  then show ?case
    by (auto simp: utf8_decode_char split: option.splits sum.splits)
qed

section \<open>Base64: decoding inverts encoding\<close>

lemma unat_table_b2a:
  "i < 26 \<Longrightarrow> unat (table_b2a i) = 65 + i"
  "26 \<le> i \<Longrightarrow> i < 52 \<Longrightarrow> unat (table_b2a i) = 71 + i"
  "52 \<le> i \<Longrightarrow> i < 62 \<Longrightarrow> unat (table_b2a i) = i - 4"
  "i = 62 \<Longrightarrow> unat (table_b2a i) = 45"
  "62 < i \<Longrightarrow> unat (table_b2a i) = 95"
proof -
  show "i < 26 \<Longrightarrow> unat (table_b2a i) = 65 + i"
    using unat_byte_of_nat [of "0x41 + i"] by (simp add: table_b2a_def)
  show "26 \<le> i \<Longrightarrow> i < 52 \<Longrightarrow> unat (table_b2a i) = 71 + i"
    using unat_byte_of_nat [of "0x61 + (i - 26)"] by (simp add: table_b2a_def)
  show "52 \<le> i \<Longrightarrow> i < 62 \<Longrightarrow> unat (table_b2a i) = i - 4"
    using unat_byte_of_nat [of "0x30 + (i - 52)"] by (simp add: table_b2a_def)
  show "i = 62 \<Longrightarrow> unat (table_b2a i) = 45"
    by (simp add: table_b2a_def)
  show "62 < i \<Longrightarrow> unat (table_b2a i) = 95"
    by (simp add: table_b2a_def)
qed

lemma unat_table_b2a_cases:
  obtains "i < 26" "unat (table_b2a i) = 65 + i"
  | "26 \<le> i" "i < 52" "unat (table_b2a i) = 71 + i"
  | "52 \<le> i" "i < 62" "unat (table_b2a i) = i - 4"
  | "i = 62" "unat (table_b2a i) = 45"
  | "62 < i" "unat (table_b2a i) = 95"
  using unat_table_b2a [of i] by (metis linorder_not_less nat_neq_iff)

lemma table_b2a_ascii: "unat (table_b2a i) < 0x80"
  by (rule unat_table_b2a_cases [of i]) simp_all

lemma table_b2a_not_pad: "table_b2a i \<noteq> 0x3D"
proof
  assume "table_b2a i = 0x3D"
  then have "unat (table_b2a i) = 61" by simp
  then show False by (rule_tac unat_table_b2a_cases [of i]) simp_all
qed

lemma table_a2b_b2a: "i < 64 \<Longrightarrow> table_a2b (table_b2a i) = Some i"
proof (rule unat_table_b2a_cases [of i])
  assume "52 \<le> i" "i < 62" and u: "unat (table_b2a i) = i - 4"
  then have "48 \<le> i - 4" "i - 4 \<le> 57" "i - 4 - 48 + 52 = i" by arith+
  then show ?thesis by (simp add: table_a2b_def Let_def u)
qed (simp_all add: table_a2b_def Let_def)

lemma urlsafe_b64encode_ascii: "\<forall>b\<in>set (urlsafe_b64encode xs). unat b < 0x80"
  by (induction xs rule: urlsafe_b64encode.induct) (simp_all add: table_b2a_ascii)

lemma a2b_step:
  "i < 64 \<Longrightarrow> a2b_base64 quad_pos leftchar pads out (table_b2a i # cs) =
     (if quad_pos = 0 then a2b_base64 1 i 0 out cs
      else if quad_pos = 1 then
        a2b_base64 2 (i mod 16) 0 (out @ [of_nat (leftchar * 4 + i div 16)]) cs
      else if quad_pos = 2 then
        a2b_base64 3 (i mod 4) 0 (out @ [of_nat (leftchar * 16 + i div 4)]) cs
      else a2b_base64 0 0 0 (out @ [of_nat (leftchar * 64 + i)]) cs)"
  by (simp add: table_b2a_not_pad table_a2b_b2a)

lemma unat_byte_less: "unat (b :: byte) < 256"
  using unsigned_less [of b, where ?'a = nat] by simp

lemma divmod_pack:
  fixes x y :: nat
  shows "y < 16 \<Longrightarrow> (x * 16 + y) div 16 = x" "y < 16 \<Longrightarrow> (x * 16 + y) mod 16 = y"
    "y < 4 \<Longrightarrow> (x * 4 + y) div 4 = x" "y < 4 \<Longrightarrow> (x * 4 + y) mod 4 = y"
  by simp_all

lemma sextet_bounds:
  fixes a b :: nat
  assumes "a < 256" "b < 256"
  shows "a div 4 < 64" "a div 16 < 16" "a div 64 < 4" "a mod 4 * 16 + b div 16 < 64"
    "a mod 16 * 4 + b div 64 < 64" "a mod 64 < 64" "a mod 4 * 16 < 64" "a mod 16 * 4 < 64"
proof -
  have m: "a mod 4 < 4" "a mod 16 < 16" by simp_all
  show d: "a div 4 < 64" "a div 16 < 16" "a div 64 < 4"
    using assms by (simp_all add: less_mult_imp_div_less)
  have e: "b div 16 < 16" "b div 64 < 4" using assms by (simp_all add: less_mult_imp_div_less)
  show "a mod 4 * 16 + b div 16 < 64" using m e by linarith
  show "a mod 16 * 4 + b div 64 < 64" using m e by linarith
  show "a mod 64 < 64" by simp
  show "a mod 4 * 16 < 64" using m by linarith
  show "a mod 16 * 4 < 64" using m by linarith
qed

lemma a2b_pad:
  "a2b_base64 quad_pos leftchar pads out (0x3D # cs) =
     (if 2 \<le> quad_pos \<and> 4 \<le> quad_pos + (pads + 1) then Inr out
      else a2b_base64 quad_pos leftchar (if 2 \<le> quad_pos then pads + 1 else pads) out cs)"
  by simp

lemma byte_div_bounds:
  fixes b :: byte
  shows "unat b div 16 < 16" "unat b div 64 < 4" "unat b div 4 < 64"
  using unat_byte_less [of b] by (simp_all add: less_mult_imp_div_less)

lemmas byte_sextets = sextet_bounds [OF unat_byte_less unat_byte_less]

lemma quad3:
  fixes a b c :: byte
  shows "a2b_base64 0 0 0 out
           ([table_b2a (unat a div 4), table_b2a (unat a mod 4 * 16 + unat b div 16),
             table_b2a (unat b mod 16 * 4 + unat c div 64), table_b2a (unat c mod 64)] @ cs)
         = a2b_base64 0 0 0 (out @ [a, b, c]) cs"
  by (simp add: a2b_step byte_sextets byte_div_bounds divmod_pack del: a2b_base64.simps(2))

lemma quad2:
  fixes a b :: byte
  shows "a2b_base64 0 0 0 out
           [table_b2a (unat a div 4), table_b2a (unat a mod 4 * 16 + unat b div 16),
             table_b2a (unat b mod 16 * 4), 0x3D]
         = Inr (out @ [a, b])"
  using divmod_pack(3) [of 0 "unat b mod 16"]
  by (simp add: a2b_step a2b_pad byte_sextets byte_div_bounds divmod_pack
        del: a2b_base64.simps(2))

lemma quad1:
  fixes a :: byte
  shows "a2b_base64 0 0 0 out
           [table_b2a (unat a div 4), table_b2a (unat a mod 4 * 16), 0x3D, 0x3D]
         = Inr (out @ [a])"
  using divmod_pack(1) [of 0 "unat a mod 4"]
  by (simp add: a2b_step a2b_pad byte_sextets byte_div_bounds del: a2b_base64.simps(2))

lemma a2b_b2a: "a2b_base64 0 0 0 out (urlsafe_b64encode xs) = Inr (out @ xs)"
proof (induction xs arbitrary: out rule: urlsafe_b64encode.induct)
  case 1
  then show ?case by simp
next
  case (2 a)
  then show ?case using quad1 by simp
next
  case (3 a b)
  then show ?case using quad2 by simp
next
  case (4 a b c rest)
  show ?case
    unfolding urlsafe_b64encode.simps quad3 "4.IH" by simp
qed

lemma urlsafe_b64decode_encode: "urlsafe_b64decode (urlsafe_b64encode xs) = Inr xs"
  by (simp add: urlsafe_b64decode_def a2b_b2a)

lemma urlsafe_b64encode_inj: "urlsafe_b64encode xs = urlsafe_b64encode ys \<Longrightarrow> xs = ys"
  by (metis urlsafe_b64decode_encode sum.inject(2))

declare a2b_base64.simps(2) [simp del]

section \<open>Fernet: decryption inverts encryption\<close>

lemma pkcs7_pad_length: "length (pkcs7_pad d) mod 16 = 0" "pkcs7_pad d \<noteq> []"
proof -
  have "length d mod 16 < 16" by simp
  then have "(length d + (16 - length d mod 16)) mod 16 = 0"
    by presburger
  then show "length (pkcs7_pad d) mod 16 = 0" by (simp add: pkcs7_pad_def Let_def)
  show "pkcs7_pad d \<noteq> []" by (simp add: pkcs7_pad_def Let_def)
qed

lemma pkcs7_unpad_pad: "pkcs7_unpad (pkcs7_pad d) = Inr d"
proof -
  define n where "n = 16 - length d mod 16"
  have n: "0 < n" "n \<le> 16" unfolding n_def by simp_all
  have p: "pkcs7_pad d = d @ replicate n (of_nat n)" by (simp add: pkcs7_pad_def n_def Let_def)
  have l: "last (pkcs7_pad d) = of_nat n" using n unfolding p by simp
  have u: "unat (of_nat n :: byte) = n" using n by (simp add: unat_byte_of_nat)
  show ?thesis
    unfolding pkcs7_unpad_def using pkcs7_pad_length [of d] n
    by (simp add: l u Let_def) (simp add: p)
qed

lemma xor_bytes_length: "length xs = length ys \<Longrightarrow> length (xor_bytes xs ys) = length ys"
  by (simp add: xor_bytes_def)

lemma xor_bytes_cancel: "length xs = length ys \<Longrightarrow> xor_bytes xs (xor_bytes xs ys) = ys"
proof (induction xs ys rule: list_induct2)
  case Nil
  then show ?case by (simp add: xor_bytes_def)
next
  case (Cons x xs y ys)
  then show ?case by (simp add: xor_bytes_def flip: xor.assoc)
qed

lemma chunks_block:
  "length b = 16 \<Longrightarrow> chunks 16 (b @ rest) = b # chunks 16 rest"
  apply (subst chunks.simps)
  apply simp
  apply (cases b)
   apply simp_all
  done

lemma chunks_Nil [simp]: "chunks n [] = []"
  by (subst chunks.simps) simp

lemma chunks_step: "xs \<noteq> [] \<Longrightarrow> chunks 16 xs = take 16 xs # chunks 16 (drop 16 xs)"
  by (subst chunks.simps) simp

lemma chunks_blocks:
  "length xs mod 16 = 0 \<Longrightarrow> list_all (\<lambda>b. length b = 16) (chunks 16 xs)"
proof (induction xs rule: length_induct)
  case (1 xs)
  show ?case
  proof (cases "xs = []")
    case True
    then show ?thesis by simp
  next
    case False
    from False have "length xs \<noteq> 0" by simp
    with "1.prems" have len: "16 \<le> length xs" and m0: "(length xs - 16) mod 16 = 0"
      by presburger+
    have m: "length (drop 16 xs) mod 16 = 0" using m0 by (simp only: length_drop)
    have l: "length (drop 16 xs) < length xs" using False by simp
    have ih: "list_all (\<lambda>b. length b = 16) (chunks 16 (drop 16 xs))"
      by (rule "1.IH" [THEN spec, THEN mp, THEN mp, OF l m])
    have t: "length (take 16 xs) = 16" using len by simp
    show ?thesis
      by (subst chunks_step [OF False]) (simp only: list.pred_inject ih t simp_thms)
  qed
qed

lemma concat_chunks: "concat (chunks 16 xs) = xs"
proof (induction xs rule: length_induct)
  case (1 xs)
  show ?case
  proof (cases "xs = []")
    case True
    then show ?thesis by simp
  next
    case False
    have "length (drop 16 xs) < length xs" using False by simp
    then have "concat (chunks 16 (drop 16 xs)) = drop 16 xs" using "1.IH" by blast
    then show ?thesis by (subst chunks_step [OF False]) simp
  qed
qed

lemma chunks_concat_blocks:
  "list_all (\<lambda>b. length b = 16) bs \<Longrightarrow> chunks 16 (concat bs) = bs"
  by (induction bs) (simp_all add: chunks_block)

lemma length_concat_blocks:
  "list_all (\<lambda>b. length b = 16) bs \<Longrightarrow> length (concat bs) = 16 * length bs"
  by (induction bs) simp_all

lemma cbc_encrypt_blocks_length:
  assumes "prims_ok P"
  shows "list_all (\<lambda>b. length b = 16) bs \<Longrightarrow> length iv = 16 \<Longrightarrow>
         list_all (\<lambda>b. length b = 16) (cbc_encrypt_blocks (aes_encrypt P k) iv bs)"
proof (induction bs arbitrary: iv)
  case Nil
  then show ?case by simp
next
  case (Cons b bs)
  have x: "length (xor_bytes iv b) = 16" using Cons.prems by (simp add: xor_bytes_length)
  have e: "length (aes_encrypt P k (xor_bytes iv b)) = 16"
    using assms x by (simp add: prims_ok_def)
  show ?case using Cons.prems Cons.IH [OF _ e] e by (simp add: Let_def)
qed

lemma cbc_blocks_roundtrip:
  assumes "prims_ok P"
  shows "list_all (\<lambda>b. length b = 16) bs \<Longrightarrow> length iv = 16 \<Longrightarrow>
         cbc_decrypt_blocks (aes_decrypt P k) iv (cbc_encrypt_blocks (aes_encrypt P k) iv bs) = bs"
proof (induction bs arbitrary: iv)
  case Nil
  then show ?case by simp
next
  case (Cons b bs)
  have x: "length (xor_bytes iv b) = 16" using Cons.prems by (simp add: xor_bytes_length)
  have e: "length (aes_encrypt P k (xor_bytes iv b)) = 16"
    and d: "aes_decrypt P k (aes_encrypt P k (xor_bytes iv b)) = xor_bytes iv b"
    using assms x by (simp_all add: prims_ok_def)
  have c: "xor_bytes iv (xor_bytes iv b) = b" using Cons.prems by (simp add: xor_bytes_cancel)
  show ?case using Cons.prems Cons.IH [OF _ e] by (simp add: Let_def d c)
qed

lemma cbc_encrypt_length:
  assumes "prims_ok P" "length iv = 16" "length data mod 16 = 0"
  shows "length (cbc_encrypt P k iv data) = length data"
proof -
  have b: "list_all (\<lambda>b. length b = 16) (chunks 16 data)" using assms(3) by (rule chunks_blocks)
  have "length (concat (chunks 16 data)) = 16 * length (chunks 16 data)"
    using b by (rule length_concat_blocks)
  then have n: "length data = 16 * length (chunks 16 data)" by (simp add: concat_chunks)
  have l: "length (cbc_encrypt_blocks E iv bs) = length bs" for E bs
    by (induction bs arbitrary: iv) (simp_all add: Let_def)
  have "length (cbc_encrypt P k iv data) = 16 * length (cbc_encrypt_blocks (aes_encrypt P k) iv (chunks 16 data))"
    unfolding cbc_encrypt_def
    by (rule length_concat_blocks) (rule cbc_encrypt_blocks_length [OF assms(1) b assms(2)])
  then show ?thesis using n l by simp
qed

lemma cbc_roundtrip:
  assumes "prims_ok P" "length iv = 16" "length data mod 16 = 0"
  shows "cbc_decrypt P k iv (cbc_encrypt P k iv data) = Inr data"
proof -
  have b: "list_all (\<lambda>b. length b = 16) (chunks 16 data)" using assms(3) by (rule chunks_blocks)
  have e: "list_all (\<lambda>b. length b = 16) (cbc_encrypt_blocks (aes_encrypt P k) iv (chunks 16 data))"
    by (rule cbc_encrypt_blocks_length [OF assms(1) b assms(2)])
  have c: "chunks 16 (cbc_encrypt P k iv data)
             = cbc_encrypt_blocks (aes_encrypt P k) iv (chunks 16 data)"
    unfolding cbc_encrypt_def using e by (rule chunks_concat_blocks)
  have l: "length (cbc_encrypt P k iv data) mod 16 = 0"
    using cbc_encrypt_length [OF assms] assms(3) by simp
  show ?thesis
    unfolding cbc_decrypt_def
    using assms(2) l by (simp add: c cbc_blocks_roundtrip [OF assms(1) b assms(2)] concat_chunks)
qed

lemma length_to_bytes8 [simp]: "length (to_bytes8 t) = 8"
  by (simp add: to_bytes8_def)

lemma fernet_roundtrip:
  assumes "prims_ok P" "length iv = 16"
  shows "fernet_decrypt P f (fernet_encrypt P f iv t data) = Inr data"
proof -
  define ct where "ct = cbc_encrypt P (encryption_key f) iv (pkcs7_pad data)"
  define basic where "basic = [0x80] @ to_bytes8 t @ iv @ ct"
  define tag where "tag = hmac_sha256 P (signing_key f) basic"
  have tok: "fernet_encrypt P f iv t data = urlsafe_b64encode (basic @ tag)"
    by (simp add: fernet_encrypt_def Let_def ct_def basic_def tag_def)
  have lt: "length tag = 32" using assms(1) by (simp add: tag_def prims_ok_def)
  have lb: "length basic = 25 + length ct" using assms(2) by (simp add: basic_def)
  have s1: "take (length (basic @ tag) - 32) (basic @ tag) = basic"
    and s2: "drop (length (basic @ tag) - 32) (basic @ tag) = tag"
    using lt by simp_all
  have s3: "take 16 (drop 9 (basic @ tag)) = iv"
    using assms(2) by (simp add: basic_def)
  have s4: "take (length (basic @ tag) - 32 - 25) (drop 25 (basic @ tag)) = ct"
    using assms(2) lt by (simp add: basic_def)
  have h: "basic @ tag \<noteq> []" "hd (basic @ tag) = 0x80" "\<not> length (basic @ tag) < 9"
    using lb by (simp_all add: basic_def)
  have d: "cbc_decrypt P (encryption_key f) iv ct = Inr (pkcs7_pad data)"
    unfolding ct_def by (rule cbc_roundtrip [OF assms pkcs7_pad_length(1)])
  show ?thesis
    unfolding tok fernet_decrypt_def urlsafe_b64decode_encode
    by (simp only: sum.case h s1 s2 s3 s4 Let_def tag_def [symmetric] assms(2) d
          pkcs7_unpad_pad if_False if_True simp_thms)
qed

section \<open>Tokens and keys\<close>

lemma to_bytes8_bit:
  assumes "i < 8" "j < 8"
  shows "bit (ucast (drop_bit (8 * i) (t :: 64 word)) :: byte) j = bit t (8 * i + j)"
  using assms by (simp add: bit_simps)

lemma to_bytes8_inj:
  assumes "to_bytes8 s = to_bytes8 t"
  shows "s = t"
proof (rule bit_word_eqI)
  fix n
  assume "n < LENGTH(64)"
  then have n: "n < 64" by simp
  define i j where "i = n div 8" and "j = n mod 8"
  have ij: "i < 8" "j < 8" "n = 8 * i + j" using n by (simp_all add: i_def j_def less_mult_imp_div_less)
  have e: "(ucast (drop_bit (8 * i) s) :: byte) = ucast (drop_bit (8 * i) t)"
  proof -
    have "i \<in> set [7, 6, 5, 4, 3, 2, 1, 0 :: nat]" using ij(1) by (simp) arith
    moreover have "map (\<lambda>i. ucast (drop_bit (8 * i) s) :: byte) [7, 6, 5, 4, 3, 2, 1, 0]
          = map (\<lambda>i. ucast (drop_bit (8 * i) t)) [7, 6, 5, 4, 3, 2, 1, 0]"
      using assms by (simp only: to_bytes8_def)
    ultimately show ?thesis by (meson map_eq_conv)
  qed
  have "bit s (8 * i + j) = bit (ucast (drop_bit (8 * i) s) :: byte) j"
    using ij by (simp only: to_bytes8_bit)
  also have "\<dots> = bit (ucast (drop_bit (8 * i) t) :: byte) j" by (simp only: e)
  also have "\<dots> = bit t (8 * i + j)" using ij by (simp only: to_bytes8_bit)
  finally show "bit s n = bit t n" by (simp only: ij(3))
qed

lemma prims_ok_toy: "prims_ok toy_prims"
  by (simp add: prims_ok_def toy_prims_def comp_def)

lemma utf8_encode_char_valid:
  "c < 0x110000 \<and> \<not> is_surrogate c \<longleftrightarrow> (\<exists>bs. utf8_encode_char c = Some bs)"
  by (auto simp: utf8_encode_char_def is_surrogate_def)

lemma valid_plaintext_encode: "valid_plaintext s \<longleftrightarrow> (\<exists>bs. utf8_encode s = Inr bs)"
proof (induction s)
  case Nil
  then show ?case by (simp add: valid_plaintext_def)
next
  case (Cons c s)
  show ?case
    using Cons utf8_encode_char_valid [of c]
    by (auto simp: valid_plaintext_def split: option.splits sum.splits)
qed

lemma bindable_valid: "bindable s \<longleftrightarrow> valid_plaintext s"
  by (auto simp: bindable_def valid_plaintext_encode split: sum.splits)

lemma map_unat_inj: "map unat (xs :: bytes) = map unat ys \<Longrightarrow> xs = ys"
  by (simp add: inj_map_eq_map [OF injI])

lemma ascii_decode:
  assumes "\<forall>b\<in>set bs. unat b < 0x80"
  shows "utf8_decode bs = Inr (map unat bs)"
proof -
  have "\<forall>n\<in>set (map unat bs). n < 0x80" using assms by simp
  then have "utf8_decode_nat (map unat bs) = Some (map unat bs)" by (rule utf8_decode_nat_ascii)
  then show ?thesis by (simp add: utf8_decode_def)
qed

lemma ascii_encode:
  assumes "\<forall>b\<in>set bs. unat b < 0x80"
  shows "utf8_encode (map unat bs) = Inr (bs :: bytes)"
proof -
  have "\<forall>n\<in>set (map unat bs). n < 0x80" using assms by simp
  then have "utf8_encode (map unat bs) = Inr (map of_nat (map unat bs))"
    by (rule utf8_encode_ascii)
  then show ?thesis by (simp add: comp_def)
qed

lemma fernet_encrypt_token:
  "fernet_encrypt P f iv t data
     = urlsafe_b64encode ([0x80] @ to_bytes8 t @ iv
          @ cbc_encrypt P (encryption_key f) iv (pkcs7_pad data)
          @ hmac_sha256 P (signing_key f)
              ([0x80] @ to_bytes8 t @ iv @ cbc_encrypt P (encryption_key f) iv (pkcs7_pad data)))"
  by (simp add: fernet_encrypt_def Let_def)

lemma fernet_encrypt_ascii: "\<forall>b\<in>set (fernet_encrypt P f iv t data). unat b < 0x80"
  unfolding fernet_encrypt_token by (rule urlsafe_b64encode_ascii)

lemma encrypt_password_token:
  "utf8_encode password = Inr data \<Longrightarrow>
     encrypt_password P f iv t password = Inr (map unat (fernet_encrypt P f iv t data))"
  by (simp add: encrypt_password_def ascii_decode [OF fernet_encrypt_ascii])

lemma decrypt_password_token:
  assumes "prims_ok P" "length iv = 16" "utf8_encode password = Inr data"
  shows "decrypt_password P f (map unat (fernet_encrypt P f iv t data)) = Inr password"
  using utf8_roundtrip [OF assms(3)]
  by (simp add: decrypt_password_def ascii_encode [OF fernet_encrypt_ascii]
        fernet_roundtrip [OF assms(1,2)] utf8_decode_def)

lemma fernet_encrypt_inj:
  assumes "length iv1 = 16" "length iv2 = 16"
    and "fernet_encrypt P f iv1 t1 data1 = fernet_encrypt P f iv2 t2 data2"
  shows "iv1 = iv2 \<and> t1 = t2"
proof -
  from assms(3) have "to_bytes8 t1 @ iv1 @ r1 = to_bytes8 t2 @ iv2 @ r2"
    if "r1 = cbc_encrypt P (encryption_key f) iv1 (pkcs7_pad data1)
          @ hmac_sha256 P (signing_key f)
              ([0x80] @ to_bytes8 t1 @ iv1 @ cbc_encrypt P (encryption_key f) iv1 (pkcs7_pad data1))"
       "r2 = cbc_encrypt P (encryption_key f) iv2 (pkcs7_pad data2)
          @ hmac_sha256 P (signing_key f)
              ([0x80] @ to_bytes8 t2 @ iv2 @ cbc_encrypt P (encryption_key f) iv2 (pkcs7_pad data2))"
    for r1 r2
    unfolding fernet_encrypt_token that by (auto dest!: urlsafe_b64encode_inj)
  then obtain r1 r2 where e: "to_bytes8 t1 @ iv1 @ r1 = to_bytes8 t2 @ iv2 @ r2" by blast
  then have "to_bytes8 t1 = to_bytes8 t2" and "iv1 @ r1 = iv2 @ r2" by simp_all
  then show ?thesis using assms(1,2) by (auto dest: to_bytes8_inj)
qed

lemma a2b_length:
  "a2b_base64 q l p out s = Inr r \<Longrightarrow> q < 4 \<Longrightarrow>
     4 * length r \<le> 4 * length out + 3 * length s + (if q = 0 then 0 else 4 - q)"
proof (induction q l p out s rule: a2b_base64.induct)
  case (1 quad_pos leftchar pads out)
  then show ?case by (simp split: if_splits)
next
  case (2 quad_pos leftchar pads out c cs)
  show ?case
  proof (cases "c = 0x3D")
    case True
    show ?thesis
    proof (cases "2 \<le> quad_pos \<and> 4 \<le> quad_pos + (pads + 1)")
      case True
      with \<open>c = 0x3D\<close> "2.prems" show ?thesis by (simp add: a2b_base64.simps(2))
    next
      case False
      with \<open>c = 0x3D\<close> "2.prems" "2.IH"(1) show ?thesis
        by (simp add: a2b_base64.simps(2) split: if_splits)
    qed
  next
    case False
    show ?thesis
    proof (cases "table_a2b c")
      case None
      with False "2.prems" "2.IH"(2) show ?thesis
        by (simp add: a2b_base64.simps(2) split: if_splits)
    next
      case (Some v)
      consider "quad_pos = 0" | "quad_pos = 1" | "quad_pos = 2" | "quad_pos = 3"
        using "2.prems"(2) by linarith
      then show ?thesis
      proof cases
        case 1
        with False Some "2.prems" "2.IH"(3) [OF False Some] show ?thesis
          by (simp add: a2b_base64.simps(2))
      next
        case 2
        with False Some "2.prems" "2.IH"(4) [OF False Some] show ?thesis
          by (simp add: a2b_base64.simps(2))
      next
        case 3
        with False Some "2.prems" "2.IH"(5) [OF False Some] show ?thesis
          by (simp add: a2b_base64.simps(2))
      next
        case 4
        with False Some "2.prems" "2.IH"(6) [OF False Some] show ?thesis
          by (simp add: a2b_base64.simps(2))
      qed
    qed
  qed
qed

lemma urlsafe_b64decode_length:
  "urlsafe_b64decode s = Inr r \<Longrightarrow> 4 * length r \<le> 3 * length s"
  using a2b_length [of 0 0 0 "[]" s r] by (simp add: urlsafe_b64decode_def)

lemma Fernet_Inr_iff:
  "Fernet key = Inr f \<longleftrightarrow>
     (\<exists>k. urlsafe_b64decode key = Inr k \<and> length k = 32
          \<and> f = \<lparr>signing_key = take 16 k, encryption_key = drop 16 k\<rparr>)"
  by (auto simp: Fernet_def split: sum.splits)

lemma Fernet_cases: "Fernet key = Inl ValueError \<or> (\<exists>f. Fernet key = Inr f)"
  by (auto simp: Fernet_def split: sum.splits)

lemma Fernet_short: "length key < 43 \<Longrightarrow> Fernet key = Inl ValueError"
proof -
  assume s: "length key < 43"
  have "\<not> (\<exists>f. Fernet key = Inr f)"
  proof
    assume "\<exists>f. Fernet key = Inr f"
    then obtain k where "urlsafe_b64decode key = Inr k" "length k = 32"
      by (auto simp: Fernet_Inr_iff)
    then show False using urlsafe_b64decode_length [of key k] s by simp
  qed
  then show ?thesis using Fernet_cases [of key] by blast
qed

lemma Fernet_generate_key:
  "length rnd = 32 \<Longrightarrow>
     Fernet (generate_key rnd) = Inr \<lparr>signing_key = take 16 rnd, encryption_key = drop 16 rnd\<rparr>"
  by (simp add: Fernet_def generate_key_def urlsafe_b64decode_encode)

lemma length_urlsafe_b64encode: "length (urlsafe_b64encode xs) = 4 * ((length xs + 2) div 3)"
proof (induction xs rule: urlsafe_b64encode.induct)
  case (4 a b c rest)
  have "4 + 4 * ((length rest + 2) div 3) = 4 * ((length rest + 5) div 3)" by presburger
  with 4 show ?case by (simp add: add.commute)
qed simp_all

section \<open>Example values of the key file and the policy\<close>

lemmas policy_defs = validate_password_def lit_def re_search_def class_upper_def
  class_lower_def class_digit_def class_special_def

lemma replicate_32: "replicate 32 x = [x, x, x, x, x, x, x, x, x, x, x, x, x, x, x, x,
    x, x, x, x, x, x, x, x, x, x, x, x, x, x, x, x]"
  by (simp add: numeral_eq_Suc)

lemma example_key_text_decode:
  "urlsafe_b64decode example_key_text = Inr (replicate 32 0)"
  unfolding example_key_text_def urlsafe_b64decode_def replicate_32
  by (simp add: a2b_base64.simps(2) table_a2b_def Let_def)

lemma example_key_text_length: "length example_key_text = 44"
  by (simp add: example_key_text_def)

lemma Fernet_example_key_text:
  "Fernet example_key_text
     = Inr \<lparr>signing_key = replicate 16 0, encryption_key = replicate 16 0\<rparr>"
  unfolding Fernet_def example_key_text_decode by (simp add: replicate_32) (simp add: numeral_eq_Suc)

section \<open>What the loops of \<^verbatim>\<open>add_password\<close> can do to the object\<close>

lemma printable_simps [simp]:
  "printable (w\<lparr>stdout := out\<rparr>) s = printable w s"
  "printable (w\<lparr>tty := inp\<rparr>) s = printable w s"
  "printable (w\<lparr>self := m\<rparr>) s = printable w s"
  "printable w []"
  by (simp_all add: printable_def)

lemma print_ok:
  "printable w (user_text x) \<Longrightarrow> print x w = (Inr (), w\<lparr>stdout := stdout w @ [x]\<rparr>)"
  by (simp add: print_def)

lemma print_fail:
  "\<not> printable w (user_text x) \<Longrightarrow> print x w = (Inl UnicodeEncodeError, w)"
  by (simp add: print_def)

lemma print_keeps:
  assumes "print x w = (r, w')"
  shows "self w' = self w" "tty w' = tty w" "stdout_encodes w' = stdout_encodes w"
  using assms by (auto simp: print_def split: if_splits)

lemma print_plain [simp]:
  "print Does_not_meet_requirements w = (Inr (), w\<lparr>stdout := stdout w @ [Does_not_meet_requirements]\<rparr>)"
  "print (Attempt_try_again a b) w = (Inr (), w\<lparr>stdout := stdout w @ [Attempt_try_again a b]\<rparr>)"
  "print (Failed_after_attempts b) w = (Inr (), w\<lparr>stdout := stdout w @ [Failed_after_attempts b]\<rparr>)"
  "print Passwords_dont_match w = (Inr (), w\<lparr>stdout := stdout w @ [Passwords_dont_match]\<rparr>)"
  "print (Error_saving e) w = (Inr (), w\<lparr>stdout := stdout w @ [Error_saving e]\<rparr>)"
  "print (Error_retrieving e) w = (Inr (), w\<lparr>stdout := stdout w @ [Error_retrieving e]\<rparr>)"
  by (simp_all add: print_def)

lemma print_each_self: "print_each xs w = (r, w') \<Longrightarrow> self w' = self w"
proof (induction xs arbitrary: w)
  case Nil
  then show ?case by simp
next
  case (Cons x xs)
  obtain r1 w1 where p: "print x w = (r1, w1)" by (cases "print x w")
  have s: "self w1 = self w" using p by (rule print_keeps)
  show ?case
  proof (cases r1)
    case (Inl e)
    with Cons.prems p s show ?thesis by simp
  next
    case (Inr u)
    with Cons.prems p have "print_each xs w1 = (r, w')" by simp
    from Cons.IH [OF this] s show ?thesis by simp
  qed
qed

lemma getpass_self: "getpass w = (r, w') \<Longrightarrow> self w' = self w"
  by (auto simp: getpass_def split: list.splits)

lemma confirm_loop_self: "confirm_loop password xs w = (r, w') \<Longrightarrow> self w' = self w"
proof (induction xs arbitrary: w)
  case Nil
  then show ?case by simp
next
  case (Cons a xs)
  then show ?case
    by (auto split: prod.splits sum.splits if_splits dest!: getpass_self)
qed

lemma save_try_result:
  "save_try P iv t service_name password w = (r, w') \<Longrightarrow>
     self w' = self w \<or> (\<exists>c. execute_insert (self w) service_name c = Inr (self w'))"
  by (auto simp: save_try_def commit_def split: sum.splits if_splits dest: print_keeps(1))

lemma save_result:
  "save P iv t service_name password w = (r, w') \<Longrightarrow>
     self w' = self w \<or> (\<exists>c. execute_insert (self w) service_name c = Inr (self w'))"
proof -
  assume a: "save P iv t service_name password w = (r, w')"
  obtain r1 w1 where t: "save_try P iv t service_name password w = (r1, w1)"
    by (cases "save_try P iv t service_name password w")
  from a t have "self w' = self w1"
    by (auto simp: save_def split: sum.splits if_splits dest: print_keeps(1))
  with save_try_result [OF t] show ?thesis by simp
qed

lemma password_loop_result:
  "password_loop nd P iv t service_name xs w = (r, w') \<Longrightarrow>
     self w' = self w \<or> (\<exists>c. execute_insert (self w) service_name c = Inr (self w'))"
proof (induction xs arbitrary: w)
  case Nil
  then show ?case by simp
next
  case (Cons a xs)
  obtain g w1 where g: "getpass w = (g, w1)" by (cases "getpass w")
  have w1: "self w1 = self w" using g by (rule getpass_self)
  show ?case
  proof (cases g)
    case (Inl e)
    with Cons.prems g w1 show ?thesis by auto
  next
    case (Inr password)
    obtain is_valid errors where v: "validate_password nd password = (is_valid, errors)"
      by (cases "validate_password nd password")
    show ?thesis
    proof (cases is_valid)
      case False
      obtain r2 w2 where p: "print_each (Does_not_meet_requirements # map Violation errors) w1 = (r2, w2)"
        by (cases "print_each (Does_not_meet_requirements # map Violation errors) w1")
      have w2: "self w2 = self w" using print_each_self [OF p] w1 by simp
      show ?thesis
      proof (cases r2)
        case (Inl e)
        with Cons.prems g Inr v False p w2 show ?thesis by simp
      next
        case r2: (Inr u)
        show ?thesis
        proof (cases "a < max_attempts")
          case True
          with Cons.prems g Inr v False p r2
          have "password_loop nd P iv t service_name xs
                  (w2\<lparr>stdout := stdout w2 @ [Attempt_try_again a max_attempts]\<rparr>) = (r, w')"
            by simp
          from Cons.IH [OF this] w2 show ?thesis by simp
        next
          case F: False
          with Cons.prems g Inr v False p r2 w2 show ?thesis by auto
        qed
      qed
    next
      case True
      obtain c w2 where c: "confirm_loop password (py_range 1 (max_attempts_confirm + 1)) w1 = (c, w2)"
        by (cases "confirm_loop password (py_range 1 (max_attempts_confirm + 1)) w1")
      have w2: "self w2 = self w" using confirm_loop_self [OF c] w1 by simp
      from Cons.prems g Inr v True c show ?thesis
        using w2 by (auto split: sum.splits bool.splits if_splits dest!: save_result)
    qed
  qed
qed

section \<open>Lookups, insertions and the example states\<close>

lemma get_password_cases:
  "get_password P service_name w =
     (case execute_select (self w) service_name of
        Inl e \<Rightarrow> (Inr None, w\<lparr>stdout := stdout w @ [Error_retrieving e]\<rparr>)
      | Inr None \<Rightarrow>
          (Inr None,
           w\<lparr>stdout := stdout w
                @ [if printable w service_name then No_password_found service_name
                   else Error_retrieving UnicodeEncodeError]\<rparr>)
      | Inr (Some (svc, encrypted)) \<Rightarrow>
          (case decrypt_password P (self_fernet (self w)) encrypted of
             Inl e \<Rightarrow> (Inr None, w\<lparr>stdout := stdout w @ [Error_retrieving e]\<rparr>)
           | Inr decrypted \<Rightarrow>
               if \<not> printable w service_name
               then (Inr None, w\<lparr>stdout := stdout w @ [Error_retrieving UnicodeEncodeError]\<rparr>)
               else if \<not> printable w decrypted
               then (Inr None,
                     w\<lparr>stdout := stdout w
                          @ [Service_line service_name, Error_retrieving UnicodeEncodeError]\<rparr>)
               else (Inr (Some decrypted),
                     w\<lparr>stdout := stdout w
                          @ [Service_line service_name, Password_line decrypted]\<rparr>)))"
  by (simp add: get_password_def get_password_try_def print_def
        split: sum.splits option.splits prod.splits)

lemma get_password_self [simp]: "self (snd (get_password P service_name w)) = self w"
  by (simp add: get_password_cases split: sum.splits option.splits prod.splits)

lemma get_password_fst:
  "fst (get_password P service_name w) =
     Inr (case execute_select (self w) service_name of
            Inl e \<Rightarrow> None
          | Inr None \<Rightarrow> None
          | Inr (Some (svc, encrypted)) \<Rightarrow>
              (case decrypt_password P (self_fernet (self w)) encrypted of
                 Inl e \<Rightarrow> None
               | Inr decrypted \<Rightarrow>
                   if printable w service_name \<and> printable w decrypted then Some decrypted
                   else None))"
  by (simp add: get_password_cases split: sum.splits option.splits prod.splits)

lemma execute_select_rows:
  "execute_select m service_name =
     (if self_closed m then Inl ProgrammingError
      else case self_passwords m of
             None \<Rightarrow> Inl OperationalError
           | Some rows \<Rightarrow>
               if \<not> bindable service_name then Inl UnicodeEncodeError
               else (case find (\<lambda>r. row_service r = service_name) rows of
                       None \<Rightarrow> Inr None
                     | Some r \<Rightarrow> Inr (Some (row_service r, row_password r))))"
  by (simp add: execute_select_def split: option.splits)

lemma get_password_table:
  "fst (get_password P service_name w) =
     Inr (if self_closed (self w) then None
          else case self_passwords (self w) of
                 None \<Rightarrow> None
               | Some rows \<Rightarrow>
                   if \<not> bindable service_name then None
                   else (case find (\<lambda>r. row_service r = service_name) rows of
                           None \<Rightarrow> None
                         | Some r \<Rightarrow>
                             (case decrypt_password P (self_fernet (self w)) (row_password r) of
                                Inl e \<Rightarrow> None
                              | Inr decrypted \<Rightarrow>
                                  if printable w service_name \<and> printable w decrypted
                                  then Some decrypted else None)))"
  by (simp add: get_password_fst execute_select_rows split: option.splits)

lemma blit_encode: "utf8_encode (lit ''gAAAAABl'') = Inr [0x67, 0x41, 0x41, 0x41, 0x41, 0x41, 0x42, 0x6C]"
  by (simp add: lit_def utf8_encode_char_def)

lemma truncated_token:
  "decrypt_password P f (lit ''gAAAAABl'') = Inl InvalidToken"
  by (simp add: decrypt_password_def blit_encode fernet_decrypt_def urlsafe_b64decode_def
        a2b_base64.simps(2) table_a2b_def Let_def)

lemma select_corrupted:
  "execute_select (self corrupted_world) (lit ''gmail.com'')
     = Inr (Some (lit ''gmail.com'', lit ''gAAAAABl''))"
  "execute_select (self corrupted_world) (lit ''yahoo.com'') = Inr None"
  by (simp_all add: execute_select_def corrupted_world_def new_manager_def bindable_def lit_def
        utf8_encode_char_def)

lemma printable_ascii: "list_all (\<lambda>c. c < 0x80) s \<Longrightarrow> printable w s"
  by (induction s) (simp_all add: printable_def)

lemma printable_lit_examples:
  "printable w (lit ''gmail.com'')" "printable w (lit ''yahoo.com'')"
  "printable w (lit ''facebook.com'')" "printable w (lit ''MyPass123!'')" "printable w []"
  by (simp_all add: printable_def lit_def)

lemma py_range_attempts:
  "py_range 1 (max_attempts + 1) = [1, 2, 3]" "py_range 1 (max_attempts_confirm + 1) = [1, 2, 3]"
  by (simp_all add: py_range_def max_attempts_def max_attempts_confirm_def upt_rec)

lemma py_range_attempts_Suc:
  "py_range (Suc 0) (Suc max_attempts) = [1, 2, 3]"
  "py_range (Suc 0) (Suc max_attempts_confirm) = [1, 2, 3]"
  using py_range_attempts by simp_all

lemma add_password_confirmed:
  assumes "tty w = password # password # rest" and "fst (validate_password nd password)"
  shows "add_password nd P iv t service_name w
           = save P iv t service_name password (w\<lparr>tty := rest\<rparr>)"
proof -
  obtain errors where v: "validate_password nd password = (True, errors)"
    using assms(2) by (cases "validate_password nd password") simp
  have g1: "getpass w = (Inr password, w\<lparr>tty := password # rest\<rparr>)"
    using assms(1) by (simp add: getpass_def)
  have g2: "getpass (w\<lparr>tty := password # rest\<rparr>) = (Inr password, w\<lparr>tty := rest\<rparr>)"
    by (simp add: getpass_def)
  show ?thesis
    unfolding add_password_def py_range_attempts
    by (simp add: py_range_attempts_Suc g1 g2 v)
qed

lemma encrypt_password_bindable:
  assumes "valid_plaintext password"
  shows "\<exists>encrypted. encrypt_password P f iv t password = Inr encrypted \<and> bindable encrypted"
proof -
  from assms obtain data where d: "utf8_encode password = Inr data"
    by (auto simp: valid_plaintext_encode)
  have "bindable (map unat (fernet_encrypt P f iv t data))"
    by (simp add: bindable_def ascii_encode [OF fernet_encrypt_ascii])
  then show ?thesis using encrypt_password_token [OF d] by simp
qed

lemma encrypt_password_invalid:
  "\<not> valid_plaintext password \<Longrightarrow>
     encrypt_password P f iv t password = Inl UnicodeEncodeError"
proof -
  assume "\<not> valid_plaintext password"
  then have "\<not> (\<exists>bs. utf8_encode password = Inr bs)" by (simp add: valid_plaintext_encode)
  moreover have "utf8_encode s = Inl UnicodeEncodeError \<or> (\<exists>bs. utf8_encode s = Inr bs)" for s
    by (induction s) (auto split: option.splits sum.splits)
  ultimately have "utf8_encode password = Inl UnicodeEncodeError" by blast
  then show ?thesis by (simp add: encrypt_password_def)
qed

lemma save_duplicate:
  assumes "\<not> self_closed (self w)" and "self_passwords (self w) = Some rows"
    and "service_name \<in> set (map row_service rows)"
    and "valid_plaintext service_name" and "valid_plaintext password"
  shows "save P iv t service_name password w = print (Already_exists service_name) w"
proof -
  obtain encrypted where e: "encrypt_password P (self_fernet (self w)) iv t password = Inr encrypted"
    "bindable encrypted"
    using encrypt_password_bindable [OF assms(5)] by blast
  have "execute_insert (self w) service_name encrypted = Inl IntegrityError"
    using assms e(2) by (simp add: execute_insert_def bindable_valid)
  then show ?thesis by (simp add: save_def save_try_def e(1))
qed

lemma save_insert:
  assumes "\<not> self_closed (self w)" and "self_passwords (self w) = Some rows"
    and "service_name \<notin> set (map row_service rows)"
    and "valid_plaintext service_name" and "valid_plaintext password"
  shows "\<exists>encrypted.
           encrypt_password P (self_fernet (self w)) iv t password = Inr encrypted
         \<and> save P iv t service_name password w
           = (Inr (),
              w\<lparr>self := (self w)\<lparr>self_passwords :=
                     Some (rows @ [\<lparr>row_id = next_id rows, row_service = service_name,
                                    row_password = encrypted\<rparr>])\<rparr>,
                 stdout := stdout w
                   @ [if printable w service_name then Saved_successfully service_name
                      else Error_saving UnicodeEncodeError]\<rparr>)"
proof -
  obtain encrypted where e: "encrypt_password P (self_fernet (self w)) iv t password = Inr encrypted"
    "bindable encrypted"
    using encrypt_password_bindable [OF assms(5)] by blast
  have "execute_insert (self w) service_name encrypted
          = Inr ((self w)\<lparr>self_passwords :=
                     Some (rows @ [\<lparr>row_id = next_id rows, row_service = service_name,
                                    row_password = encrypted\<rparr>])\<rparr>)"
    using assms e(2) by (simp add: execute_insert_def bindable_valid)
  then show ?thesis
    using assms(1) by (simp add: save_def save_try_def e(1) commit_def print_def)
qed

lemma save_unbindable:
  assumes "\<not> self_closed (self w)" and "self_passwords (self w) = Some rows"
    and "\<not> valid_plaintext password \<or> \<not> valid_plaintext service_name"
  shows "save P iv t service_name password w
           = (Inr (), w\<lparr>stdout := stdout w @ [Error_saving UnicodeEncodeError]\<rparr>)"
proof (cases "valid_plaintext password")
  case False
  then show ?thesis
    by (simp add: save_def save_try_def encrypt_password_invalid)
next
  case True
  with assms(3) have s: "\<not> bindable service_name" by (simp add: bindable_valid)
  obtain encrypted where e: "encrypt_password P (self_fernet (self w)) iv t password = Inr encrypted"
    using encrypt_password_bindable [OF True] by blast
  have "execute_insert (self w) service_name encrypted = Inl UnicodeEncodeError"
    using assms(1,2) s by (simp add: execute_insert_def)
  then show ?thesis by (simp add: save_def save_try_def e)
qed

lemma add_password_inserts:
  assumes "\<not> self_closed (self w)" and "self_passwords (self w) = Some rows"
    and "service_name \<notin> set (map row_service rows)"
    and "fst (validate_password nd password)"
    and "tty w = password # password # rest"
  shows "if \<not> valid_plaintext password \<or> \<not> valid_plaintext service_name
         then add_password nd P iv t service_name w
                = (Inr (), w\<lparr>tty := rest, stdout := stdout w @ [Error_saving UnicodeEncodeError]\<rparr>)
         else (\<exists>encrypted.
                 encrypt_password P (self_fernet (self w)) iv t password = Inr encrypted
               \<and> add_password nd P iv t service_name w
                 = (Inr (),
                    w\<lparr>tty := rest,
                       self := (self w)\<lparr>self_passwords :=
                         Some (rows @ [\<lparr>row_id = next_id rows, row_service = service_name,
                                        row_password = encrypted\<rparr>])\<rparr>,
                       stdout := stdout w
                         @ [if printable w service_name then Saved_successfully service_name
                            else Error_saving UnicodeEncodeError]\<rparr>))"
proof -
  have c: "\<not> self_closed (self (w\<lparr>tty := rest\<rparr>))" "self_passwords (self (w\<lparr>tty := rest\<rparr>)) = Some rows"
    using assms(1,2) by simp_all
  show ?thesis
  proof (cases "\<not> valid_plaintext password \<or> \<not> valid_plaintext service_name")
    case True
    from save_unbindable [OF c True, of P iv t] True show ?thesis
      unfolding add_password_confirmed [OF assms(5,4)] by simp
  next
    case False
    then have v: "valid_plaintext service_name" "valid_plaintext password" by simp_all
    from save_insert [OF c assms(3) v, of P iv t] False show ?thesis
      unfolding add_password_confirmed [OF assms(5,4)] by simp
  qed
qed

lemma valid_example: "valid_plaintext (lit ''MyPass123!'')" "valid_plaintext []"
  "valid_plaintext (lit ''facebook.com'')" "valid_plaintext cafe_service"
  "\<not> valid_plaintext surrogate_service"
  by (simp_all add: valid_plaintext_def lit_def is_surrogate_def cafe_service_def
        surrogate_service_def)

lemma policy_example: "fst (validate_password nd (lit ''MyPass123!''))"
  by (simp add: policy_defs)

lemma next_id_Nil: "next_id [] = 1"
  by (simp add: next_id_def)

lemma example_token_ok:
  "encrypt_password toy_prims example_fernet example_iv 1700000000 (lit ''MyPass123!'')
     = Inr example_token"
  "decrypt_password toy_prims example_fernet example_token = Inr (lit ''MyPass123!'')"
proof -
  obtain data where d: "utf8_encode (lit ''MyPass123!'') = Inr data"
    using valid_example(1) by (auto simp: valid_plaintext_encode)
  have l: "length example_iv = 16" by (simp add: example_iv_def)
  have e: "encrypt_password toy_prims example_fernet example_iv 1700000000 (lit ''MyPass123!'')
             = Inr (map unat (fernet_encrypt toy_prims example_fernet example_iv 1700000000 data))"
    by (rule encrypt_password_token [OF d])
  then have t: "example_token
                  = map unat (fernet_encrypt toy_prims example_fernet example_iv 1700000000 data)"
    by (simp add: example_token_def)
  show "encrypt_password toy_prims example_fernet example_iv 1700000000 (lit ''MyPass123!'')
     = Inr example_token"
    using e t by simp
  show "decrypt_password toy_prims example_fernet example_token = Inr (lit ''MyPass123!'')"
    unfolding t by (rule decrypt_password_token [OF prims_ok_toy l d])
qed

lemma typing_world_facts:
  "\<not> self_closed (self (typing_world pw))"
  "self_passwords (self (typing_world pw)) = Some []"
  "tty (typing_world pw) = pw # pw # []"
  "self_fernet (self (typing_world pw)) = example_fernet"
  "\<not> self_closed (self (ascii_typing_world pw))"
  "self_passwords (self (ascii_typing_world pw)) = Some []"
  "tty (ascii_typing_world pw) = pw # pw # []"
  "self_fernet (self (ascii_typing_world pw)) = example_fernet"
  by (simp_all add: typing_world_def ascii_typing_world_def new_manager_def)

lemma printable_terminals:
  "printable (ascii_typing_world pw) s = list_all (\<lambda>c. c < 0x80) s"
  "valid_plaintext s \<Longrightarrow> printable (typing_world pw) s"
  by (simp_all add: printable_def ascii_typing_world_def ascii_terminal_def typing_world_def
        utf8_terminal_def valid_plaintext_def list_all_iff)


lemma after_first_put_eq:
  "after_first_put =
     \<lparr>self = new_manager\<lparr>self_passwords :=
              Some [\<lparr>row_id = 1, row_service = lit ''facebook.com'',
                     row_password = example_token\<rparr>]\<rparr>,
      tty = [], stdout = [Saved_successfully (lit ''facebook.com'')],
      stdout_encodes = utf8_terminal\<rparr>"
  unfolding after_first_put_def
  using add_password_inserts [OF typing_world_facts(1,2) [of "lit ''MyPass123!''"] _ policy_example
      typing_world_facts(3) [of "lit ''MyPass123!''"],
      where service_name = "lit ''facebook.com''"
        and nd = ascii_digits_only and P = toy_prims and iv = example_iv and t = 1700000000]
    printable_terminals(2) [OF valid_example(3), of "lit ''MyPass123!''"]
  by (simp add: valid_example typing_world_facts(4) example_token_ok next_id_Nil)
     (simp add: typing_world_def)

lemma cafe_not_ascii: "\<not> list_all (\<lambda>c. c < 0x80) cafe_service"
  by (simp add: cafe_service_def lit_def)

lemma cafe_put_eq:
  "add_password ascii_digits_only toy_prims example_iv 1700000000 cafe_service
     (ascii_typing_world (lit ''MyPass123!''))
   = (Inr (),
      \<lparr>self = new_manager\<lparr>self_passwords :=
               Some [\<lparr>row_id = 1, row_service = cafe_service, row_password = example_token\<rparr>]\<rparr>,
       tty = [], stdout = [Error_saving UnicodeEncodeError], stdout_encodes = ascii_terminal\<rparr>)"
  using add_password_inserts [OF typing_world_facts(5,6) [of "lit ''MyPass123!''"] _ policy_example
      typing_world_facts(7) [of "lit ''MyPass123!''"],
      where service_name = cafe_service
        and nd = ascii_digits_only and P = toy_prims and iv = example_iv and t = 1700000000]
  by (simp add: valid_example typing_world_facts(8) example_token_ok next_id_Nil
        printable_terminals(1) cafe_not_ascii)
     (simp add: ascii_typing_world_def typing_world_def)

lemma after_cafe_put_eq:
  "after_cafe_put =
     \<lparr>self = new_manager\<lparr>self_passwords :=
              Some [\<lparr>row_id = 1, row_service = cafe_service, row_password = example_token\<rparr>]\<rparr>,
      tty = [], stdout = [Error_saving UnicodeEncodeError], stdout_encodes = ascii_terminal\<rparr>"
  by (simp add: after_cafe_put_def cafe_put_eq)

lemma surrogate_put_eq:
  "add_password ascii_digits_only toy_prims example_iv 1700000000 surrogate_service
     (typing_world (lit ''MyPass123!''))
   = (Inr (),
      \<lparr>self = new_manager, tty = [], stdout = [Error_saving UnicodeEncodeError],
       stdout_encodes = utf8_terminal\<rparr>)"
  using add_password_inserts [OF typing_world_facts(1,2) [of "lit ''MyPass123!''"] _ policy_example
      typing_world_facts(3) [of "lit ''MyPass123!''"],
      where service_name = surrogate_service
        and nd = ascii_digits_only and P = toy_prims and iv = example_iv and t = 1700000000]
  by (simp add: valid_example) (simp add: typing_world_def)

lemma get_password_fst_self:
  "self w1 = self w2 \<Longrightarrow> stdout_encodes w1 = stdout_encodes w2 \<Longrightarrow>
     fst (get_password P s w1) = fst (get_password P s w2)"
proof -
  assume a: "self w1 = self w2" and b: "stdout_encodes w1 = stdout_encodes w2"
  have p: "printable w1 = printable w2"
    by (rule ext) (simp only: printable_def b)
  show ?thesis
    unfolding get_password_fst a p ..
qed

lemma execute_insert_existing:
  assumes "self_passwords m = Some rows" and "service_name \<in> set (map row_service rows)"
  shows "execute_insert m service_name c \<noteq> Inr m'"
  using assms by (simp add: execute_insert_def)

lemma add_password_existing_unchanged:
  assumes "self_passwords (self w) = Some rows" and "service_name \<in> set (map row_service rows)"
  shows "self (snd (add_password nd P iv t service_name w)) = self w"
proof -
  obtain r w' where a: "add_password nd P iv t service_name w = (r, w')"
    by (cases "add_password nd P iv t service_name w")
  then have "password_loop nd P iv t service_name (py_range 1 (max_attempts + 1)) w = (r, w')"
    by (simp add: add_password_def)
  from password_loop_result [OF this] execute_insert_existing [OF assms]
  have "self w' = self w" by blast
  with a show ?thesis by simp
qed

lemma execute_select_bindable:
  "execute_select m service_name = Inr r \<Longrightarrow> valid_plaintext service_name"
  by (auto simp: execute_select_def bindable_valid split: if_splits option.splits)

lemma get_password_Some:
  assumes "fst (get_password P service_name w) = Inr (Some X)"
  shows "valid_plaintext service_name" "printable w service_name"
proof -
  from assms obtain r where r: "execute_select (self w) service_name = Inr r"
    by (cases "execute_select (self w) service_name") (simp_all add: get_password_fst)
  then show "valid_plaintext service_name" by (rule execute_select_bindable)
  from assms r show "printable w service_name"
    by (auto simp: get_password_fst split: option.splits sum.splits if_splits)
qed

lemma valid_second: "valid_plaintext (lit ''DifferentPass456!'')"
  "fst (validate_password nd (lit ''DifferentPass456!''))"
  by (simp_all add: valid_plaintext_def is_surrogate_def policy_defs)

lemma second_put_world_eq:
  "second_put_world =
     \<lparr>self = new_manager\<lparr>self_passwords :=
              Some [\<lparr>row_id = 1, row_service = lit ''facebook.com'',
                     row_password = example_token\<rparr>]\<rparr>,
      tty = [lit ''DifferentPass456!'', lit ''DifferentPass456!''],
      stdout = [Saved_successfully (lit ''facebook.com'')],
      stdout_encodes = utf8_terminal\<rparr>"
  by (simp add: second_put_world_def after_first_put_eq)

lemma get_after_first_put:
  "fst (get_password toy_prims (lit ''facebook.com'') after_first_put)
     = Inr (Some (lit ''MyPass123!''))"
  "fst (get_password toy_prims (lit ''facebook.com'') second_put_world)
     = Inr (Some (lit ''MyPass123!''))"
proof -
  have v: "bindable (lit ''facebook.com'')" by (simp add: bindable_valid valid_example)
  have p: "printable w (lit ''facebook.com'')" "printable w (lit ''MyPass123!'')" for w
    by (rule printable_lit_examples)+
  show "fst (get_password toy_prims (lit ''facebook.com'') after_first_put)
     = Inr (Some (lit ''MyPass123!''))"
    by (simp add: get_password_table after_first_put_eq new_manager_def v p example_token_ok)
  show "fst (get_password toy_prims (lit ''facebook.com'') second_put_world)
     = Inr (Some (lit ''MyPass123!''))"
    by (simp add: get_password_table second_put_world_eq new_manager_def v p example_token_ok)
qed

lemma distinct_count:
  "distinct (map f xs) \<Longrightarrow> length (filter (\<lambda>x. f x = s) xs) \<le> 1"
proof (induction xs)
  case Nil
  then show ?case by simp
next
  case (Cons x xs)
  show ?case
  proof (cases "f x = s")
    case True
    with Cons.prems have "filter (\<lambda>x. f x = s) xs = []"
      by (auto simp: filter_empty_conv image_iff)
    with True show ?thesis by simp
  next
    case False
    with Cons show ?thesis by simp
  qed
qed

lemma execute_insert_unique:
  "unique_services m \<Longrightarrow> execute_insert m service_name c = Inr m' \<Longrightarrow> unique_services m'"
  by (auto simp: execute_insert_def unique_services_def services_def
        split: if_splits option.splits)

lemma execute_insert_table:
  "execute_insert m service_name c = Inr m' \<Longrightarrow> self_passwords m' \<noteq> None"
  by (auto simp: execute_insert_def split: if_splits option.splits)

lemma add_password_unique:
  assumes "unique_services (self w)" and "self_passwords (self w) \<noteq> None"
    and "add_password nd P iv t service_name w = (r, w')"
  shows "unique_services (self w') \<and> self_passwords (self w') \<noteq> None"
proof -
  from assms(3) have "password_loop nd P iv t service_name (py_range 1 (max_attempts + 1)) w = (r, w')"
    by (simp add: add_password_def)
  from password_loop_result [OF this] assms(1,2) show ?thesis
    by (auto dest: execute_insert_unique execute_insert_table)
qed

lemma PasswordManager_table:
  assumes "PasswordManager fs db db_name key_file rnd = (Inr m, fs')"
  shows "self_passwords m = Some (case db of None \<Rightarrow> [] | Some rows \<Rightarrow> rows)"
  using assms
  by (auto simp: PasswordManager_def create_table_def split: prod.splits sum.splits option.splits)

lemma reachable_invariant:
  "reachable nd P m \<Longrightarrow> unique_services m \<and> self_passwords m \<noteq> None"
proof (induction rule: reachable.induct)
  case (new fs db_name key_file rnd m fs')
  from PasswordManager_table [OF new] show ?case
    by (simp add: unique_services_def services_def)
next
  case (reopen m0 fs db_name key_file rnd m fs')
  from PasswordManager_table [OF reopen.hyps(2)] reopen.IH show ?case
    by (auto simp: unique_services_def services_def)
next
  case (add w iv current_time service_name r w')
  then show ?case using add_password_unique by blast
next
  case (get w service_name r' w')
  from get.hyps(2) have "self w' = self w"
    using get_password_self [of P service_name w] by simp
  with get.IH show ?case by simp
next
  case (close m)
  then show ?case by (simp add: close_def unique_services_def services_def)
qed

lemma PasswordManager_new:
  "PasswordManager Map.empty None (lit ''passwords.db'') (lit ''encryption.key'')
     (replicate 16 1 @ replicate 16 2)
   = (Inr new_manager, [lit ''encryption.key'' \<mapsto> generate_key (replicate 16 1 @ replicate 16 2)])"
  by (simp add: PasswordManager_def initialize_encryption_def Let_def Fernet_generate_key
        create_table_def new_manager_def example_fernet_def)

lemma add_password_preserves:
  "unique_services (self w) \<Longrightarrow> unique_services (self (snd (add_password nd P iv t s w)))"
proof -
  assume u: "unique_services (self w)"
  obtain r w' where a: "add_password nd P iv t s w = (r, w')"
    by (cases "add_password nd P iv t s w")
  then have "password_loop nd P iv t s (py_range 1 (max_attempts + 1)) w = (r, w')"
    by (simp add: add_password_def)
  from password_loop_result [OF this] u have "unique_services (self w')"
    by (auto dest: execute_insert_unique)
  with a show ?thesis by simp
qed

lemma close_preserves: "unique_services m \<Longrightarrow> unique_services (close m)"
  by (simp add: close_def unique_services_def services_def)

lemma bindable_examples:
  "bindable (lit ''facebook.com'')" "bindable (lit ''yahoo.com'')" "bindable (lit ''gmail.com'')"
  "bindable cafe_service"
  by (simp_all add: bindable_valid valid_plaintext_def is_surrogate_def lit_def cafe_service_def)

lemma cafe_unprintable: "\<not> printable after_cafe_put cafe_service"
  by (simp add: printable_def after_cafe_put_eq ascii_terminal_def cafe_service_def lit_def)

section \<open>Encryption and decryption of passwords\<close>

text \<open>
  Claim C1. For every valid plaintext password and a fixed key, decrypting the result of
  encrypting the password with that key returns exactly the password:
  \<^verbatim>\<open>decrypt_password(encrypt_password(P)) == P\<close>. The key is the \<^verbatim>\<open>Fernet\<close> object \<open>f\<close>;
  \<open>iv\<close> and \<open>current_time\<close> are the 16 random bytes and the clock value that the
  encryption draws. The library's primitives are assumed to keep their contract
  \<open>prims_ok\<close>.
\<close>

theorem encrypt_decrypt_roundtrip:
  assumes "prims_ok P" and "length iv = 16" and "valid_plaintext password"
  shows "\<exists>encrypted. encrypt_password P f iv current_time password = Inr encrypted
           \<and> decrypt_password P f encrypted = Inr password"
proof -
  from assms(3) obtain data where d: "utf8_encode password = Inr data"
    by (auto simp: valid_plaintext_encode)
  show ?thesis
    using encrypt_password_token [OF d] decrypt_password_token [OF assms(1,2) d] by simp
qed

text \<open>The theorem at the password of the repository's test, with the stand-in primitives.\<close>

theorem encrypt_decrypt_roundtrip_witness:
  "prims_ok toy_prims \<and> length example_iv = 16 \<and> valid_plaintext (lit ''TestPassword123!'')
   \<and> (\<exists>encrypted.
          encrypt_password toy_prims example_fernet example_iv 1700000000
            (lit ''TestPassword123!'') = Inr encrypted
        \<and> decrypt_password toy_prims example_fernet encrypted = Inr (lit ''TestPassword123!''))"
proof -
  have a: "prims_ok toy_prims" by (rule prims_ok_toy)
  have b: "length example_iv = 16" by (simp add: example_iv_def)
  have c: "valid_plaintext (lit ''TestPassword123!'')"
    by (simp add: valid_plaintext_def lit_def is_surrogate_def)
  from a b c encrypt_decrypt_roundtrip [OF a b c] show ?thesis by blast
qed

text \<open>
  Claim C4. For every valid plaintext and a fixed key, two calls of \<open>encrypt_password\<close>
  with independent draws yield different ciphertexts, and both ciphertexts decrypt to the
  plaintext. A call draws 16 random bytes and reads the clock; two independent draws are
  two pairs \<open>(iv1, time1)\<close> and \<open>(iv2, time2)\<close> that differ in the random bytes or in
  the clock value. (A token is a function of key, plaintext and draw, so equal draws give
  equal tokens.)
\<close>

theorem nonce_freshness:
  assumes "prims_ok P" and "length iv1 = 16" and "length iv2 = 16"
    and "valid_plaintext password" and "(iv1, time1) \<noteq> (iv2, time2)"
  shows "\<exists>c1 c2. encrypt_password P f iv1 time1 password = Inr c1
           \<and> encrypt_password P f iv2 time2 password = Inr c2
           \<and> c1 \<noteq> c2
           \<and> decrypt_password P f c1 = Inr password
           \<and> decrypt_password P f c2 = Inr password"
proof -
  from assms(4) obtain data where d: "utf8_encode password = Inr data"
    by (auto simp: valid_plaintext_encode)
  have "map unat (fernet_encrypt P f iv1 time1 data) \<noteq> map unat (fernet_encrypt P f iv2 time2 data)"
    using assms(5) fernet_encrypt_inj [OF assms(2,3)] by (auto dest!: map_unat_inj)
  then show ?thesis
    using encrypt_password_token [OF d] decrypt_password_token [OF assms(1,2) d]
      decrypt_password_token [OF assms(1,3) d] by simp
qed

theorem nonce_freshness_witness:
  "prims_ok toy_prims \<and> length example_iv = 16 \<and> length (replicate 16 9 :: bytes) = 16
   \<and> valid_plaintext (lit ''TestPassword123!'')
   \<and> (example_iv, 1700000000 :: 64 word) \<noteq> (replicate 16 9, 1700000000)
   \<and> (\<exists>c1 c2.
          encrypt_password toy_prims example_fernet example_iv 1700000000
            (lit ''TestPassword123!'') = Inr c1
        \<and> encrypt_password toy_prims example_fernet (replicate 16 9) 1700000000
            (lit ''TestPassword123!'') = Inr c2
        \<and> c1 \<noteq> c2
        \<and> decrypt_password toy_prims example_fernet c1 = Inr (lit ''TestPassword123!'')
        \<and> decrypt_password toy_prims example_fernet c2 = Inr (lit ''TestPassword123!''))"
proof -
  have a: "prims_ok toy_prims" by (rule prims_ok_toy)
  have b: "length example_iv = 16" by (simp add: example_iv_def)
  have b': "length (replicate 16 9 :: bytes) = 16" by simp
  have c: "valid_plaintext (lit ''TestPassword123!'')"
    by (simp add: valid_plaintext_def lit_def is_surrogate_def)
  have d: "(example_iv, 1700000000 :: 64 word) \<noteq> (replicate 16 9, 1700000000)"
    by (simp add: example_iv_def)
  from a b b' c d nonce_freshness [OF a b b' c d] show ?thesis by blast
qed

section \<open>The key file\<close>

text \<open>
  Claim C3. A second call of \<open>initialize_encryption\<close> against the same path returns
  what the first call returned, the same key material, whatever the random source would
  give it, and leaves the file system as it found it: the key file is not overwritten.
  After the first call the key file exists: it is the file that was there, or the key
  just generated. It is not empty when the call returned a key, and the call on a path
  with no file returns the key made of the 32 random bytes.
\<close>

theorem key_load_idempotent:
  assumes "initialize_encryption fs key_file rnd = (r, fs')"
  shows "initialize_encryption fs' key_file rnd' = (r, fs')
         \<and> (\<exists>content. fs' key_file = Some content
               \<and> (fs key_file = Some content
                    \<or> fs key_file = None \<and> content = generate_key rnd))
         \<and> (\<forall>f. r = Inr f \<longrightarrow> (\<exists>content. fs' key_file = Some content \<and> content \<noteq> []))
         \<and> (fs key_file = None \<and> length rnd = 32 \<longrightarrow>
               r = Inr \<lparr>signing_key = take 16 rnd, encryption_key = drop 16 rnd\<rparr>)"
proof (cases "fs key_file")
  case None
  with assms have r: "r = Fernet (generate_key rnd)"
    and fs': "fs' = fs(key_file \<mapsto> generate_key rnd)"
    by (simp_all add: initialize_encryption_def Let_def)
  have n: "generate_key rnd \<noteq> []" if "r = Inr f" for f
    using Fernet_short [of "generate_key rnd"] that r by auto
  have k: "r = Inr \<lparr>signing_key = take 16 rnd, encryption_key = drop 16 rnd\<rparr>"
    if "length rnd = 32"
    using that r by (simp add: Fernet_generate_key)
  from None r fs' n k show ?thesis by (simp add: initialize_encryption_def Let_def)
next
  case (Some content)
  with assms have r: "r = Fernet content" and fs': "fs' = fs"
    by (simp_all add: initialize_encryption_def Let_def)
  have n: "content \<noteq> []" if "r = Inr f" for f
    using Fernet_short [of content] that r by auto
  from Some r fs' n show ?thesis by (simp add: initialize_encryption_def Let_def)
qed

text \<open>The first call on a path with no file, then the second: both return the same key.\<close>

theorem key_load_idempotent_witness:
  "initialize_encryption Map.empty (lit ''encryption.key'') (replicate 32 5)
     = (Inr \<lparr>signing_key = replicate 16 5, encryption_key = replicate 16 5\<rparr>,
        [lit ''encryption.key'' \<mapsto> generate_key (replicate 32 5)])
   \<and> initialize_encryption [lit ''encryption.key'' \<mapsto> generate_key (replicate 32 5)]
         (lit ''encryption.key'') (replicate 32 6)
     = (Inr \<lparr>signing_key = replicate 16 5, encryption_key = replicate 16 5\<rparr>,
        [lit ''encryption.key'' \<mapsto> generate_key (replicate 32 5)])
   \<and> (\<exists>content. [lit ''encryption.key'' \<mapsto> generate_key (replicate 32 5)]
                    (lit ''encryption.key'') = Some content \<and> content \<noteq> [])"
proof -
  have a: "initialize_encryption Map.empty (lit ''encryption.key'') (replicate 32 5)
     = (Inr \<lparr>signing_key = replicate 16 5, encryption_key = replicate 16 5\<rparr>,
        [lit ''encryption.key'' \<mapsto> generate_key (replicate 32 5)])"
    by (simp add: initialize_encryption_def Let_def Fernet_generate_key)
  from a key_load_idempotent [OF a, of "replicate 32 6"] show ?thesis by blast
qed

text \<open>
  Claim C6, as the specification states it: if a file exists at the key path, it is read
  as raw key bytes and the call fails with \<open>CorruptKeyFile\<close> whenever its byte length is
  not 32. The code hands the content of the file to the constructor of \<^verbatim>\<open>Fernet\<close>,
  which takes the url-safe base64 text of the key. The file that the code itself writes
  has 44 bytes, and the call accepts it.
\<close>

theorem key_file_length_counterexample:
  "length example_key_text = 44
   \<and> length example_key_text \<noteq> 32
   \<and> initialize_encryption [lit ''encryption.key'' \<mapsto> example_key_text]
         (lit ''encryption.key'') []
       = (Inr \<lparr>signing_key = replicate 16 0, encryption_key = replicate 16 0\<rparr>,
          [lit ''encryption.key'' \<mapsto> example_key_text])"
  by (simp add: example_key_text_length initialize_encryption_def Let_def
        Fernet_example_key_text)

text \<open>
  Claim C6, amended. If a file exists at the key path, the call leaves it as it is and
  hands its content to the constructor of \<^verbatim>\<open>Fernet\<close>: the call fails, with the
  constructor's \<open>ValueError\<close>, exactly when the content is not url-safe base64 text that
  decodes to 32 bytes of key material. In particular it fails on every file shorter than
  43 bytes, a file of 32 raw bytes among them.
\<close>

theorem key_file_is_key_text:
  assumes "fs key_file = Some content"
  shows "initialize_encryption fs key_file rnd
           = ((case urlsafe_b64decode content of
                 Inl e \<Rightarrow> Inl ValueError
               | Inr k \<Rightarrow>
                   if length k = 32
                   then Inr \<lparr>signing_key = take 16 k, encryption_key = drop 16 k\<rparr>
                   else Inl ValueError), fs)
         \<and> (length content < 43 \<longrightarrow>
               initialize_encryption fs key_file rnd = (Inl ValueError, fs))"
  using assms Fernet_short [of content]
  by (auto simp: initialize_encryption_def Let_def Fernet_def split: sum.splits)

text \<open>The theorem at a file of 32 raw bytes.\<close>

theorem key_file_is_key_text_witness:
  "[lit ''encryption.key'' \<mapsto> raw_key_bytes] (lit ''encryption.key'') = Some raw_key_bytes
   \<and> length raw_key_bytes = 32
   \<and> initialize_encryption [lit ''encryption.key'' \<mapsto> raw_key_bytes]
         (lit ''encryption.key'') []
       = (Inl ValueError, [lit ''encryption.key'' \<mapsto> raw_key_bytes])"
proof -
  have a: "[lit ''encryption.key'' \<mapsto> raw_key_bytes] (lit ''encryption.key'')
             = Some raw_key_bytes"
    by simp
  have b: "length raw_key_bytes = 32" by (simp add: raw_key_bytes_def)
  have c: "length raw_key_bytes < 43" using b by simp
  from a c key_file_is_key_text
    [of "[lit ''encryption.key'' \<mapsto> raw_key_bytes]" "lit ''encryption.key''" raw_key_bytes "[]"]
  have "initialize_encryption [lit ''encryption.key'' \<mapsto> raw_key_bytes]
         (lit ''encryption.key'') []
       = (Inl ValueError, [lit ''encryption.key'' \<mapsto> raw_key_bytes])"
    by blast
  with a b show ?thesis by blast
qed

section \<open>Storing and retrieving passwords\<close>

text \<open>
  Claim C2. If the table holds a record for the service name, from which \<open>get_password\<close>
  returns \<open>X\<close>, then \<open>add_password\<close> for the same name, with a valid password \<open>Y\<close>
  typed and confirmed, reports that the password already exists and changes nothing: the
  object and its table are as before the call, and \<open>get_password\<close> still returns \<open>X\<close>.
  Whatever is typed, a call of \<open>add_password\<close> for an existing service leaves the object
  as it was. The outcome \<open>DuplicateService\<close> is the \<open>IntegrityError\<close> of the insertion,
  which the method reports by printing \<open>Already_exists\<close>; that line can be written,
  because \<open>get_password\<close> has written the service name when it returned \<open>X\<close>.
\<close>

theorem duplicate_put_no_mutation:
  assumes "\<not> self_closed (self w)" and "self_passwords (self w) = Some rows"
    and "service_name \<in> set (map row_service rows)"
    and "fst (get_password P service_name w) = Inr (Some X)"
    and "valid_plaintext Y" and "fst (validate_password nd Y)"
    and "tty w = Y # Y # rest"
  shows "add_password nd P iv t service_name w
           = (Inr (), w\<lparr>tty := rest, stdout := stdout w @ [Already_exists service_name]\<rparr>)
         \<and> self (snd (add_password nd P iv t service_name w)) = self w
         \<and> fst (get_password P service_name (snd (add_password nd P iv t service_name w)))
             = Inr (Some X)
         \<and> (\<forall>w0. self w0 = self w \<longrightarrow>
               self (snd (add_password nd P iv t service_name w0)) = self w)"
proof -
  note v = get_password_Some [OF assms(4)]
  have c: "\<not> self_closed (self (w\<lparr>tty := rest\<rparr>))" "self_passwords (self (w\<lparr>tty := rest\<rparr>)) = Some rows"
    using assms(1,2) by simp_all
  have a: "add_password nd P iv t service_name w
           = (Inr (), w\<lparr>tty := rest, stdout := stdout w @ [Already_exists service_name]\<rparr>)"
    unfolding add_password_confirmed [OF assms(7,6)] save_duplicate [OF c assms(3) v(1) assms(5)]
    using v(2) by (simp add: print_def)
  have s: "self (snd (add_password nd P iv t service_name w)) = self w"
    by (simp add: a)
  have g: "fst (get_password P service_name (snd (add_password nd P iv t service_name w)))
             = Inr (Some X)"
    using get_password_fst_self [OF s, of P service_name] assms(4) by (simp add: a)
  have u: "\<forall>w0. self w0 = self w \<longrightarrow>
               self (snd (add_password nd P iv t service_name w0)) = self w"
  proof (intro allI impI)
    fix w0 :: world
    assume e: "self w0 = self w"
    then have "self_passwords (self w0) = Some rows" using assms(2) by simp
    from add_password_existing_unchanged [OF this assms(3)] e
    show "self (snd (add_password nd P iv t service_name w0)) = self w" by simp
  qed
  from a s g u show ?thesis by blast
qed

text \<open>
  The theorem in the scenario of the repository's test: \<^verbatim>\<open>MyPass123!\<close> is stored for
  \<^verbatim>\<open>facebook.com\<close>, then \<^verbatim>\<open>DifferentPass456!\<close> is typed for the same service.
\<close>

theorem duplicate_put_no_mutation_witness:
  "\<not> self_closed (self second_put_world)
   \<and> (\<exists>rows. self_passwords (self second_put_world) = Some rows
         \<and> lit ''facebook.com'' \<in> set (map row_service rows))
   \<and> fst (get_password toy_prims (lit ''facebook.com'') second_put_world)
       = Inr (Some (lit ''MyPass123!''))
   \<and> valid_plaintext (lit ''DifferentPass456!'')
   \<and> fst (validate_password ascii_digits_only (lit ''DifferentPass456!''))
   \<and> tty second_put_world = [lit ''DifferentPass456!'', lit ''DifferentPass456!'']
   \<and> add_password ascii_digits_only toy_prims example_iv 1700000001 (lit ''facebook.com'')
         second_put_world
       = (Inr (),
          second_put_world\<lparr>tty := [],
            stdout := stdout second_put_world @ [Already_exists (lit ''facebook.com'')]\<rparr>)
   \<and> fst (get_password toy_prims (lit ''facebook.com'')
         (snd (add_password ascii_digits_only toy_prims example_iv 1700000001
                 (lit ''facebook.com'') second_put_world)))
       = Inr (Some (lit ''MyPass123!''))"
proof -
  note w = second_put_world_eq
  have a: "\<not> self_closed (self second_put_world)" by (simp add: w new_manager_def)
  have b: "self_passwords (self second_put_world)
             = Some [\<lparr>row_id = 1, row_service = lit ''facebook.com'',
                      row_password = example_token\<rparr>]"
    by (simp add: w)
  have c: "lit ''facebook.com''
             \<in> set (map row_service
                  [\<lparr>row_id = 1, row_service = lit ''facebook.com'',
                    row_password = example_token\<rparr>])"
    by simp
  note g = get_after_first_put(2)
  have t: "tty second_put_world
             = lit ''DifferentPass456!'' # lit ''DifferentPass456!'' # []"
    by (simp add: w)
  from duplicate_put_no_mutation [OF a b c g valid_second(1) valid_second(2) t,
      where nd = ascii_digits_only and iv = example_iv and t = 1700000001]
  show ?thesis using a b c g t valid_second by auto
qed




text \<open>
  Claim C8. In every reachable state of the object the table exists and holds at most one
  record for each service name, names compared exactly (case-sensitively). Each of
  \<open>add_password\<close>, \<open>get_password\<close> and \<open>close\<close> preserves the invariant, from
  any state that satisfies it, whatever is typed and drawn and whatever \<^verbatim>\<open>sys.stdout\<close>
  can encode.
\<close>

theorem uniqueness_invariant:
  assumes "reachable nd P m"
  shows "(\<exists>rows. self_passwords m = Some rows \<and> distinct (map row_service rows)
            \<and> (\<forall>s. length (filter (\<lambda>r. row_service r = s) rows) \<le> 1))
         \<and> (\<forall>w iv t s. unique_services (self w) \<longrightarrow>
               unique_services (self (snd (add_password nd P iv t s w))))
         \<and> (\<forall>w s. unique_services (self w) \<longrightarrow>
               unique_services (self (snd (get_password P s w))))
         \<and> (\<forall>m0. unique_services m0 \<longrightarrow> unique_services (close m0))"
proof -
  from reachable_invariant [OF assms] obtain rows where
    r: "self_passwords m = Some rows" and d: "distinct (map row_service rows)"
    by (auto simp: unique_services_def services_def)
  from d have "\<forall>s. length (filter (\<lambda>r. row_service r = s) rows) \<le> 1"
    by (intro allI distinct_count)
  with r d show ?thesis
    by (simp add: add_password_preserves close_preserves)
qed

text \<open>
  The theorem at the state after the first password has been stored, with the three
  operations applied to that state.
\<close>

theorem uniqueness_invariant_witness:
  "reachable ascii_digits_only toy_prims (self after_first_put)
   \<and> (\<exists>rows. self_passwords (self after_first_put) = Some rows
         \<and> distinct (map row_service rows)
         \<and> (\<forall>s. length (filter (\<lambda>r. row_service r = s) rows) \<le> 1))
   \<and> unique_services (self second_put_world)
   \<and> unique_services (self (snd (add_password ascii_digits_only toy_prims example_iv
         1700000001 (lit ''facebook.com'') second_put_world)))
   \<and> unique_services (self (snd (get_password toy_prims (lit ''facebook.com'')
         second_put_world)))
   \<and> unique_services (close (self second_put_world))"
proof -
  have "reachable ascii_digits_only toy_prims new_manager"
    by (rule reachable.new [OF PasswordManager_new])
  then have "reachable ascii_digits_only toy_prims (self (typing_world (lit ''MyPass123!'')))"
    by (simp add: typing_world_def)
  then have r: "reachable ascii_digits_only toy_prims (self after_first_put)"
    unfolding after_first_put_def by (rule reachable.add) (rule surjective_pairing)
  note u = uniqueness_invariant [OF r]
  have s: "self second_put_world = self after_first_put"
    by (simp add: second_put_world_def)
  from u have q: "unique_services (self second_put_world)"
    unfolding s by (auto simp: unique_services_def services_def)
  from r u q show ?thesis by blast
qed

text \<open>
  Claim C5, as the specification states it: when \<open>get_password\<close> finds a record and
  decryption fails, the error is propagated to the caller unchanged, never caught and
  hidden, and the caller can tell it from the outcome for an absent service. In the code
  the handler of \<open>get_password\<close> catches every exception: on a table whose record for
  \<^verbatim>\<open>gmail.com\<close> holds a truncated token, decryption raises \<open>InvalidToken\<close>, and the call
  returns \<open>None\<close>, as it does for \<^verbatim>\<open>yahoo.com\<close>, which has no record.
\<close>

theorem decryption_failure_hidden_counterexample:
  "execute_select (self corrupted_world) (lit ''gmail.com'')
     = Inr (Some (lit ''gmail.com'', lit ''gAAAAABl''))
   \<and> decrypt_password toy_prims (self_fernet (self corrupted_world)) (lit ''gAAAAABl'')
       = Inl InvalidToken
   \<and> fst (get_password toy_prims (lit ''gmail.com'') corrupted_world) = Inr None
   \<and> fst (get_password toy_prims (lit ''gmail.com'') corrupted_world) \<noteq> Inl InvalidToken
   \<and> fst (get_password toy_prims (lit ''yahoo.com'') corrupted_world) = Inr None"
  by (simp add: get_password_cases select_corrupted truncated_token)

text \<open>
  Claim C5, amended. When \<open>get_password\<close> finds a record and decryption fails with an
  exception \<open>e\<close>, the method catches the exception, prints an error line that carries
  \<open>e\<close> and returns \<open>None\<close>, the value it also returns for an absent service. For an
  absent service it prints \<open>No_password_found\<close>, or, when \<^verbatim>\<open>sys.stdout\<close> cannot
  encode the service name, the error line of that \<^verbatim>\<open>print\<close>. So the return value does
  not tell the two outcomes apart; only the printed line can.
\<close>

theorem decryption_failure_is_caught:
  assumes "execute_select (self w) service_name = Inr (Some (svc, encrypted))"
    and "decrypt_password P (self_fernet (self w)) encrypted = Inl e"
  shows "get_password P service_name w
           = (Inr None, w\<lparr>stdout := stdout w @ [Error_retrieving e]\<rparr>)
         \<and> (\<forall>w0 name. execute_select (self w0) name = Inr None \<longrightarrow>
               get_password P name w0
                 = (Inr None,
                    w0\<lparr>stdout := stdout w0
                          @ [if printable w0 name then No_password_found name
                             else Error_retrieving UnicodeEncodeError]\<rparr>))"
  using assms by (simp add: get_password_cases)

text \<open>The theorem at the table with the truncated token.\<close>

theorem decryption_failure_is_caught_witness:
  "execute_select (self corrupted_world) (lit ''gmail.com'')
     = Inr (Some (lit ''gmail.com'', lit ''gAAAAABl''))
   \<and> decrypt_password toy_prims (self_fernet (self corrupted_world)) (lit ''gAAAAABl'')
       = Inl InvalidToken
   \<and> get_password toy_prims (lit ''gmail.com'') corrupted_world
       = (Inr None,
          corrupted_world\<lparr>stdout := stdout corrupted_world @ [Error_retrieving InvalidToken]\<rparr>)
   \<and> execute_select (self corrupted_world) (lit ''yahoo.com'') = Inr None
   \<and> get_password toy_prims (lit ''yahoo.com'') corrupted_world
       = (Inr None,
          corrupted_world\<lparr>stdout := stdout corrupted_world
                                    @ [No_password_found (lit ''yahoo.com'')]\<rparr>)"
proof -
  have a: "execute_select (self corrupted_world) (lit ''gmail.com'')
     = Inr (Some (lit ''gmail.com'', lit ''gAAAAABl''))"
    by (rule select_corrupted)
  have b: "decrypt_password toy_prims (self_fernet (self corrupted_world)) (lit ''gAAAAABl'')
       = Inl InvalidToken"
    by (rule truncated_token)
  have c: "execute_select (self corrupted_world) (lit ''yahoo.com'') = Inr None"
    by (rule select_corrupted)
  from a b c decryption_failure_is_caught [OF a b] printable_lit_examples(2) [of corrupted_world]
  show ?thesis by simp
qed

text \<open>
  Claim C10, as the specification states it: for every service name and every state,
  \<open>get_password\<close> returns the stored plaintext when the record exists and decrypts.
  The two lines with the service name and the password are printed inside the \<^verbatim>\<open>try\<close>
  body, before the \<^verbatim>\<open>return\<close>. In the state below the connection is open, the table
  holds a record for a service name with a letter above ASCII, the token decrypts to
  \<^verbatim>\<open>MyPass123!\<close>, and \<^verbatim>\<open>sys.stdout\<close> encodes ASCII only: the first \<^verbatim>\<open>print\<close> raises
  \<open>UnicodeEncodeError\<close>, the handler prints \<open>Error_retrieving\<close>, and the call returns
  \<open>None\<close>.
\<close>

theorem get_password_unprintable_counterexample:
  "\<not> self_closed (self after_cafe_put)
   \<and> self_passwords (self after_cafe_put)
       = Some [\<lparr>row_id = 1, row_service = cafe_service, row_password = example_token\<rparr>]
   \<and> execute_select (self after_cafe_put) cafe_service = Inr (Some (cafe_service, example_token))
   \<and> decrypt_password toy_prims (self_fernet (self after_cafe_put)) example_token
       = Inr (lit ''MyPass123!'')
   \<and> get_password toy_prims cafe_service after_cafe_put
       = (Inr None,
          after_cafe_put\<lparr>stdout := stdout after_cafe_put
                                     @ [Error_retrieving UnicodeEncodeError]\<rparr>)"
proof -
  have a: "\<not> self_closed (self after_cafe_put)"
    "self_passwords (self after_cafe_put)
       = Some [\<lparr>row_id = 1, row_service = cafe_service, row_password = example_token\<rparr>]"
    "self_fernet (self after_cafe_put) = example_fernet"
    by (simp_all add: after_cafe_put_eq new_manager_def)
  have s: "execute_select (self after_cafe_put) cafe_service
             = Inr (Some (cafe_service, example_token))"
    by (simp add: execute_select_rows a bindable_examples)
  have d: "decrypt_password toy_prims (self_fernet (self after_cafe_put)) example_token
             = Inr (lit ''MyPass123!'')"
    by (simp add: a example_token_ok)
  have g: "get_password toy_prims cafe_service after_cafe_put
       = (Inr None,
          after_cafe_put\<lparr>stdout := stdout after_cafe_put
                                     @ [Error_retrieving UnicodeEncodeError]\<rparr>)"
    by (simp add: get_password_cases s d cafe_unprintable)
  from a s d g show ?thesis by simp
qed

text \<open>
  Claim C10, amended. \<open>get_password\<close> never raises: for every service name and every
  state it returns normally and leaves the object as it was. It returns the decrypted
  password exactly when the connection is open, the table exists, the service name can be
  bound as text, the table holds a record for it, the token of the first such record
  decrypts, and \<^verbatim>\<open>sys.stdout\<close> can encode the service name and the password, which
  the method prints. In every other case it returns \<open>None\<close>: no record, a failed
  lookup, a failed decryption, a line that cannot be printed. So \<open>None\<close> does not tell
  an absent service from a failure. The closed conjuncts: the password stored for
  \<^verbatim>\<open>facebook.com\<close> is returned and printed; \<open>None\<close> is returned for \<^verbatim>\<open>yahoo.com\<close>,
  which has no record, for \<^verbatim>\<open>gmail.com\<close>, whose record holds a truncated token, and for
  \<^verbatim>\<open>facebook.com\<close> after the connection has been closed.
\<close>

theorem get_password_never_raises:
  "fst (get_password P service_name w) =
     Inr (if self_closed (self w) then None
          else case self_passwords (self w) of
                 None \<Rightarrow> None
               | Some rows \<Rightarrow>
                   if \<not> bindable service_name then None
                   else (case find (\<lambda>r. row_service r = service_name) rows of
                           None \<Rightarrow> None
                         | Some r \<Rightarrow>
                             (case decrypt_password P (self_fernet (self w)) (row_password r) of
                                Inl e \<Rightarrow> None
                              | Inr decrypted \<Rightarrow>
                                  if printable w service_name \<and> printable w decrypted
                                  then Some decrypted else None)))
   \<and> self (snd (get_password P service_name w)) = self w
   \<and> self_passwords (self after_first_put)
       = Some [\<lparr>row_id = 1, row_service = lit ''facebook.com'', row_password = example_token\<rparr>]
   \<and> get_password toy_prims (lit ''facebook.com'') after_first_put
       = (Inr (Some (lit ''MyPass123!'')),
          after_first_put\<lparr>stdout := stdout after_first_put
            @ [Service_line (lit ''facebook.com''), Password_line (lit ''MyPass123!'')]\<rparr>)
   \<and> fst (get_password toy_prims (lit ''yahoo.com'') after_first_put) = Inr None
   \<and> fst (get_password toy_prims (lit ''yahoo.com'') corrupted_world) = Inr None
   \<and> fst (get_password toy_prims (lit ''gmail.com'') corrupted_world) = Inr None
   \<and> fst (get_password toy_prims (lit ''facebook.com'') (after_first_put\<lparr>self := close (self after_first_put)\<rparr>))
       = Inr None"
proof -
  have a: "\<not> self_closed (self after_first_put)"
    "self_passwords (self after_first_put)
       = Some [\<lparr>row_id = 1, row_service = lit ''facebook.com'', row_password = example_token\<rparr>]"
    "self_fernet (self after_first_put) = example_fernet"
    by (simp_all add: after_first_put_eq new_manager_def)
  have s: "execute_select (self after_first_put) (lit ''facebook.com'')
             = Inr (Some (lit ''facebook.com'', example_token))"
    by (simp add: execute_select_rows a bindable_examples)
  have g: "get_password toy_prims (lit ''facebook.com'') after_first_put
       = (Inr (Some (lit ''MyPass123!'')),
          after_first_put\<lparr>stdout := stdout after_first_put
            @ [Service_line (lit ''facebook.com''), Password_line (lit ''MyPass123!'')]\<rparr>)"
    by (simp add: get_password_cases s a example_token_ok printable_lit_examples)
  have n: "lit ''facebook.com'' \<noteq> lit ''yahoo.com''" by (simp add: lit_def)
  have y: "fst (get_password toy_prims (lit ''yahoo.com'') after_first_put) = Inr None"
    by (simp add: get_password_table a bindable_examples n)
  have c: "fst (get_password toy_prims (lit ''yahoo.com'') corrupted_world) = Inr None"
    "fst (get_password toy_prims (lit ''gmail.com'') corrupted_world) = Inr None"
    by (simp_all add: get_password_fst select_corrupted truncated_token)
  have k: "fst (get_password toy_prims (lit ''facebook.com'')
                  (after_first_put\<lparr>self := close (self after_first_put)\<rparr>)) = Inr None"
    by (simp add: get_password_table close_def)
  from get_password_table [of P service_name w] get_password_self [of P service_name w]
    a(2) g y c k
  show ?thesis by (simp only: simp_thms)
qed

section \<open>Properties of the password policy\<close>

text \<open>
  Claim C9. \<open>validate_password\<close> checks, in this order, that the password has at least 8
  code points, an uppercase letter A-Z, a lowercase letter a-z, a digit and a character of
  the fixed punctuation set. It returns whether all five checks pass, and the messages of
  the failed checks in that fixed order, whichever checks failed. On the six passwords of
  the specification it reports exactly the named violation, and none for \<^verbatim>\<open>MyPass123!\<close>.
\<close>

theorem validate_password_policy:
  "validate_password nd p =
     (8 \<le> length p \<and> re_search class_upper p \<and> re_search class_lower p
        \<and> re_search (class_digit nd) p \<and> re_search class_special p,
      (if length p < 8 then [lit ''- At least 8 characters long''] else [])
      @ (if re_search class_upper p then [] else [lit ''- At least one uppercase letter''])
      @ (if re_search class_lower p then [] else [lit ''- At least one lowercase letter''])
      @ (if re_search (class_digit nd) p then [] else [lit ''- At least one number''])
      @ (if re_search class_special p then []
         else [lit ''- At least one special character '']))
   \<and> validate_password nd (lit ''Ab1!'') = (False, [lit ''- At least 8 characters long''])
   \<and> validate_password nd (lit ''mypass123!'')
         = (False, [lit ''- At least one uppercase letter''])
   \<and> validate_password nd (lit ''MYPASS123!'')
         = (False, [lit ''- At least one lowercase letter''])
   \<and> validate_password nd (lit ''MyPassword!'') = (False, [lit ''- At least one number''])
   \<and> validate_password nd (lit ''MyPassword123'')
         = (False, [lit ''- At least one special character ''])
   \<and> validate_password nd (lit ''MyPass123!'') = (True, [])"
proof -
  have general: "validate_password nd p =
     (8 \<le> length p \<and> re_search class_upper p \<and> re_search class_lower p
        \<and> re_search (class_digit nd) p \<and> re_search class_special p,
      (if length p < 8 then [lit ''- At least 8 characters long''] else [])
      @ (if re_search class_upper p then [] else [lit ''- At least one uppercase letter''])
      @ (if re_search class_lower p then [] else [lit ''- At least one lowercase letter''])
      @ (if re_search (class_digit nd) p then [] else [lit ''- At least one number''])
      @ (if re_search class_special p then []
         else [lit ''- At least one special character '']))"
    by (simp add: validate_password_def Let_def not_less)
  have e1: "validate_password nd (lit ''Ab1!'')
         = (False, [lit ''- At least 8 characters long''])"
    by (simp add: policy_defs)
  have e2: "validate_password nd (lit ''mypass123!'')
         = (False, [lit ''- At least one uppercase letter''])"
    by (simp add: policy_defs)
  have e3: "validate_password nd (lit ''MYPASS123!'')
         = (False, [lit ''- At least one lowercase letter''])"
    by (simp add: policy_defs)
  have e4: "validate_password nd (lit ''MyPassword!'')
         = (False, [lit ''- At least one number''])"
    by (simp add: policy_defs)
  have e5: "validate_password nd (lit ''MyPassword123'')
         = (False, [lit ''- At least one special character ''])"
    by (simp add: policy_defs)
  have e6: "validate_password nd (lit ''MyPass123!'') = (True, [])"
    by (simp add: policy_defs)
  from general e1 e2 e3 e4 e5 e6 show ?thesis by blast
qed

end
